theory Spec2Isabelle
  imports Main "HOL-Library.AList" "HOL-Library.Char_ord" "HOL-Library.List_Lexorder"
    "HOL-Library.Multiset"
begin

section \<open>Data model\<close>

text \<open>
  Numbers are the counters of the log (messages, tokens, milliseconds): integers, modelled
  as \<open>int\<close>. A plain object used as a dictionary (\<open>Record<string, V>\<close>) and a
  \<open>Map<string, V>\<close> are association lists; \<open>map_of\<close> reads a key and \<open>AList.update\<close> is
  \<open>m.set(k, v)\<close> / \<open>o[k] = v\<close>: an existing key keeps its place, a new key goes last.
  (A plain object enumerates keys that are array indices, such as the hours of
  \<open>hourCounts\<close>, in ascending order before the others; no statement below depends on the
  order in which a dictionary is enumerated, only on what it holds under each key.)
  Strings are compared as JavaScript does, code unit by code unit (the lexicographic order
  of \<open>char list\<close>).
\<close>

record TokenUsage =
  inputTokens :: int
  outputTokens :: int
  cacheReadInputTokens :: int
  cacheCreationInputTokens :: int

record Turn =
  role :: string
  turnTimestamp :: string

record SessionDetail =
  turns :: "Turn list"
  toolFrequency :: "(string \<times> int) list"
  tokensByModel :: "(string \<times> TokenUsage) list"

record SessionSummary =
  sessionId :: string
  projectPath :: string
  projectName :: string
  startedAt :: string
  lastActiveAt :: "string option"
  durationMs :: int
  messageCount :: int
  isActive :: bool

text \<open>\<open>interface SessionSummaryWithPath extends SessionSummary { filePath: string }\<close>\<close>

record SessionSummaryWithPath = SessionSummary +
  filePath :: string

record DailyActivity =
  daDate :: string
  daMessageCount :: int
  daSessionCount :: int
  daToolCallCount :: int

record DailyModelTokens =
  dmtDate :: string
  dmtTokensByModel :: "(string \<times> int) list"

record LongestSession =
  lsSessionId :: string
  lsDuration :: int
  lsMessageCount :: int
  lsTimestamp :: string

record StatsCache =
  version :: int
  lastComputedDate :: string
  dailyActivity :: "DailyActivity list"
  dailyModelTokens :: "DailyModelTokens list"
  modelUsage :: "(string \<times> TokenUsage) list"
  totalSessions :: int
  totalMessages :: int
  longestSession :: LongestSession
  firstSessionDate :: string
  hourCounts :: "(string \<times> int) list"

text \<open>The value objects of \<open>activityMap\<close>: \<open>{ messageCount, sessionCount, toolCallCount }\<close>.\<close>

record ActivityCounts =
  acMessageCount :: int
  acSessionCount :: int
  acToolCallCount :: int

datatype error = ScanError | ReadError | ParseError | WriteError

text \<open>
  The embedding follows the code on dictionaries of counters, and it leaves the code on two
  kinds of value. A read \<open>o[k]\<close> of a key that \<open>o\<close> does not hold gives \<open>undefined\<close> only
  when \<open>k\<close> names no member that every object inherits; for \<open>constructor\<close>, \<open>toString\<close>,
  \<open>__proto__\<close> and the others below, \<open>o[k] ?? 0\<close> is the inherited member and the sum
  that follows is a string. And the numbers of the code are doubles: a sum is the exact
  integer up to \<open>Number.MAX_SAFE_INTEGER\<close> and is rounded beyond it. The association
  lists and the \<open>int\<close> sums of \<open>addDayTokens\<close> and \<open>addModelUsage\<close> are the code on a
  detail whose model names are distinct and none of them inherited, and whose counters
  are not negative (\<open>plainTokens\<close>), as long as the sums stay within
  \<open>MAX_SAFE_INTEGER\<close>; the statement about token sums below is made for these.
\<close>

definition inheritedKeys :: "string list" where
  "inheritedKeys =
     [''constructor'', ''toString'', ''toLocaleString'', ''valueOf'', ''hasOwnProperty'',
      ''isPrototypeOf'', ''propertyIsEnumerable'', ''__proto__'', ''__defineGetter__'',
      ''__defineSetter__'', ''__lookupGetter__'', ''__lookupSetter__'']"

definition MAX_SAFE_INTEGER :: int where
  "MAX_SAFE_INTEGER = 2 ^ 53 - 1"

definition plainTokens :: "(string \<times> TokenUsage) list \<Rightarrow> bool" where
  "plainTokens tbm =
     (distinct (map fst tbm)
      \<and> (\<forall>p\<in>set tbm. fst p \<notin> set inheritedKeys
                       \<and> 0 \<le> inputTokens (snd p) \<and> 0 \<le> outputTokens (snd p)))"

section \<open>Helpers of the language\<close>

text \<open>\<open>x ?? d\<close> on a dictionary read.\<close>

definition getOr :: "('k \<times> 'v) list \<Rightarrow> 'k \<Rightarrow> 'v \<Rightarrow> 'v" where
  "getOr m k d = (case map_of m k of Some v \<Rightarrow> v | None \<Rightarrow> d)"

text \<open>
  \<open>Array.prototype.sort(cmp)\<close>: a stable sort; \<open>a\<close> comes before \<open>b\<close> when \<open>cmp a b < 0\<close>,
  and the two keep their order when \<open>cmp a b = 0\<close>. Written as a stable insertion sort.
\<close>

fun insertJS :: "('a \<Rightarrow> 'a \<Rightarrow> int) \<Rightarrow> 'a \<Rightarrow> 'a list \<Rightarrow> 'a list" where
  "insertJS cmp x [] = [x]"
| "insertJS cmp x (y # ys) = (if 0 < cmp x y then y # insertJS cmp x ys else x # y # ys)"

definition sortJS :: "('a \<Rightarrow> 'a \<Rightarrow> int) \<Rightarrow> 'a list \<Rightarrow> 'a list" where
  "sortJS cmp xs = foldr (insertJS cmp) xs []"

section \<open>stats-parser.ts\<close>

text \<open>\<open>isoOrDate.split('T')[0]\<close>: the text before the first \<open>T\<close>.\<close>

definition extractDateString :: "string \<Rightarrow> string" where
  "extractDateString isoOrDate = takeWhile (\<lambda>c. c \<noteq> CHR ''T'') isoOrDate"

text \<open>\<open>s.lastActiveAt ?? s.startedAt\<close>\<close>

definition lastActiveOrStarted :: "'a SessionSummary_scheme \<Rightarrow> string" where
  "lastActiveOrStarted s = (case lastActiveAt s of Some t \<Rightarrow> t | None \<Rightarrow> startedAt s)"

definition sessionDate :: "'a SessionSummary_scheme \<Rightarrow> string" where
  "sessionDate s = extractDateString (lastActiveOrStarted s)"

subsection \<open>parseDetailsInBatches\<close>

text \<open>
  \<open>parseDetail\<close> is a parameter \<open>pd\<close>: \<open>None\<close> is a parse that throws. The sessions are taken
  ten at a time; each batch is parsed, and the details that parsed are stored under their
  session id, in order.
\<close>

definition batchSize :: nat where
  "batchSize = 10"

definition storeBatch ::
  "(SessionSummaryWithPath \<Rightarrow> SessionDetail option) \<Rightarrow> SessionSummaryWithPath list \<Rightarrow>
   (string \<rightharpoonup> SessionDetail) \<Rightarrow> (string \<rightharpoonup> SessionDetail)" where
  "storeBatch pd batch results =
     fold (\<lambda>s r. case pd s of Some d \<Rightarrow> r(sessionId s \<mapsto> d) | None \<Rightarrow> r) batch results"

function batchLoop ::
  "(SessionSummaryWithPath \<Rightarrow> SessionDetail option) \<Rightarrow> SessionSummaryWithPath list \<Rightarrow>
   nat \<Rightarrow> (string \<rightharpoonup> SessionDetail) \<Rightarrow> (string \<rightharpoonup> SessionDetail)" where
  "batchLoop pd sessions i results =
     (if i < length sessions
      then batchLoop pd sessions (i + batchSize)
             (storeBatch pd (take batchSize (drop i sessions)) results)
      else results)"
  by pat_completeness auto
termination
  by (relation "measure (\<lambda>(pd, sessions, i, results). length sessions - i)")
     (auto simp: batchSize_def)

declare batchLoop.simps [simp del]

definition parseDetailsInBatches ::
  "(SessionSummaryWithPath \<Rightarrow> SessionDetail option) \<Rightarrow> SessionSummaryWithPath list \<Rightarrow>
   (string \<rightharpoonup> SessionDetail)" where
  "parseDetailsInBatches pd sessions = batchLoop pd sessions 0 Map.empty"

subsection \<open>The loop body shared by enrichment and full computation\<close>

text \<open>\<open>Object.values(detail.toolFrequency).reduce((sum, n) => sum + n, 0)\<close>\<close>

definition toolCallTotal :: "SessionDetail \<Rightarrow> int" where
  "toolCallTotal detail = foldl (\<lambda>sum n. sum + n) 0 (map snd (toolFrequency detail))"

text \<open>
  \<open>for (const [model, usage] of Object.entries(detail.tokensByModel)) {
     const total = usage.inputTokens + usage.outputTokens
     dayTokens[model] = (dayTokens[model] ?? 0) + total }\<close>, and below it the loop over the
  same entries that updates \<open>modelUsage[model]\<close>. Both read the dictionary by its own keys
  and add exactly: the code does so for \<open>plainTokens\<close> and sums within
  \<open>MAX_SAFE_INTEGER\<close> (see the data model).
\<close>

definition addDayTokens :: "(string \<times> TokenUsage) list \<Rightarrow> (string \<times> int) list \<Rightarrow> (string \<times> int) list" where
  "addDayTokens tbm dayTokens =
     fold (\<lambda>(model, usage) dt.
             let total = inputTokens usage + outputTokens usage
             in AList.update model (getOr dt model 0 + total) dt) tbm dayTokens"

definition zeroUsage :: TokenUsage where
  "zeroUsage = \<lparr>inputTokens = 0, outputTokens = 0,
                cacheReadInputTokens = 0, cacheCreationInputTokens = 0\<rparr>"

definition addModelUsage ::
  "(string \<times> TokenUsage) list \<Rightarrow> (string \<times> TokenUsage) list \<Rightarrow> (string \<times> TokenUsage) list" where
  "addModelUsage tbm mu =
     fold (\<lambda>(model, usage) mu.
             let existing = getOr mu model zeroUsage
             in AList.update model
                  (existing\<lparr>inputTokens := inputTokens existing + inputTokens usage,
                            outputTokens := outputTokens existing + outputTokens usage,
                            cacheReadInputTokens :=
                              cacheReadInputTokens existing + cacheReadInputTokens usage,
                            cacheCreationInputTokens :=
                              cacheCreationInputTokens existing + cacheCreationInputTokens usage\<rparr>)
                  mu) tbm mu"

text \<open>
  \<open>updateHourCounts\<close>. \<open>hourKey t\<close> stands for \<open>new Date(t).getHours().toString()\<close>, which
  depends on the time zone of the process; an empty \<open>startedAt\<close> is falsy and returns early.
\<close>

definition updateHourCounts ::
  "(string \<Rightarrow> string) \<Rightarrow> (string \<times> int) list \<Rightarrow> 'a SessionSummary_scheme \<Rightarrow> (string \<times> int) list" where
  "updateHourCounts hourKey hc session =
     (if startedAt session = [] then hc
      else let hour = hourKey (startedAt session)
           in AList.update hour (getOr hc hour 0 + 1) hc)"

definition zeroCounts :: ActivityCounts where
  "zeroCounts = \<lparr>acMessageCount = 0, acSessionCount = 0, acToolCallCount = 0\<rparr>"

text \<open>\<open>detail?.turns.length ?? s.messageCount\<close>\<close>

definition msgCountOf :: "SessionDetail option \<Rightarrow> 'a SessionSummary_scheme \<Rightarrow> int" where
  "msgCountOf detail s =
     (case detail of Some d \<Rightarrow> int (length (turns d)) | None \<Rightarrow> messageCount s)"

definition longestStep ::
  "SessionDetail option \<Rightarrow> 'a SessionSummary_scheme \<Rightarrow> LongestSession \<Rightarrow> LongestSession" where
  "longestStep detail s longest =
     (if lsDuration longest < durationMs s
      then \<lparr>lsSessionId = sessionId s, lsDuration = durationMs s,
            lsMessageCount = msgCountOf detail s, lsTimestamp = lastActiveOrStarted s\<rparr>
      else longest)"

text \<open>
  The state of the loop over the sessions: the two date-keyed maps, the aggregate model
  usage, the hour histogram, the running message total and the longest session so far.
\<close>

record LoopState =
  activityMap :: "(string \<times> ActivityCounts) list"
  modelTokensMap :: "(string \<times> (string \<times> int) list) list"
  modelUsageAcc :: "(string \<times> TokenUsage) list"
  hourCountsAcc :: "(string \<times> int) list"
  messagesAcc :: int
  longestAcc :: LongestSession

text \<open>
  One iteration of \<open>for (const s of recentSessions)\<close> in \<open>mergeRecentSessions\<close>; the loop of
  \<open>computeStatsFromSessions\<close> has the same body on the same variables (and tracks
  \<open>firstSessionDate\<close> besides, see \<open>computeStep\<close>).
\<close>

definition sessionStep ::
  "(string \<rightharpoonup> SessionDetail) \<Rightarrow> (string \<Rightarrow> string) \<Rightarrow> SessionSummaryWithPath \<Rightarrow>
   LoopState \<Rightarrow> LoopState" where
  "sessionStep detailMap hourKey s st =
     (let date = sessionDate s;
          detail = detailMap (sessionId s);
          cur0 = getOr (activityMap st) date zeroCounts;
          cur = cur0\<lparr>acSessionCount := acSessionCount cur0 + 1\<rparr>;
          st1 =
            (case detail of
               Some d \<Rightarrow>
                 st\<lparr>activityMap := AList.update date
                        (cur\<lparr>acMessageCount := acMessageCount cur + int (length (turns d)),
                             acToolCallCount := acToolCallCount cur + toolCallTotal d\<rparr>)
                        (activityMap st),
                    modelTokensMap := AList.update date
                        (addDayTokens (tokensByModel d) (getOr (modelTokensMap st) date []))
                        (modelTokensMap st),
                    modelUsageAcc := addModelUsage (tokensByModel d) (modelUsageAcc st),
                    messagesAcc := messagesAcc st + int (length (turns d))\<rparr>
             | None \<Rightarrow>
                 st\<lparr>activityMap := AList.update date
                        (cur\<lparr>acMessageCount := acMessageCount cur + messageCount s\<rparr>)
                        (activityMap st),
                    modelTokensMap :=
                      (if map_of (modelTokensMap st) date \<noteq> None then modelTokensMap st
                       else AList.update date [] (modelTokensMap st)),
                    messagesAcc := messagesAcc st + messageCount s\<rparr>)
      in st1\<lparr>hourCountsAcc := updateHourCounts hourKey (hourCountsAcc st1) s,
              longestAcc := longestStep detail s (longestAcc st1)\<rparr>)"

text \<open>Reading the loop state: the counters of a date, and the token entry of a date and model
  (\<open>0\<close> where there is none).\<close>

definition countsOf :: "(string \<times> ActivityCounts) list \<Rightarrow> string \<Rightarrow> ActivityCounts" where
  "countsOf am date = getOr am date zeroCounts"

definition dayTokensOf :: "(string \<times> (string \<times> int) list) list \<Rightarrow> string \<Rightarrow> string \<Rightarrow> int" where
  "dayTokensOf mtm date model = getOr (getOr mtm date []) model 0"

text \<open>
  Reading the \<open>dailyModelTokens\<close> array of an aggregate as the code reads it, through
  \<open>modelTokensMap.set(entry.date, ...)\<close> for each entry in turn: the entry of the date (the
  last one, should the array hold several for one date).
\<close>

definition dailyTokensFor :: "DailyModelTokens list \<Rightarrow> string \<Rightarrow> string \<Rightarrow> int" where
  "dailyTokensFor entries date model =
     dayTokensOf
       (fold (\<lambda>entry m. AList.update (dmtDate entry) (dmtTokensByModel entry) m) entries [])
       date model"

text \<open>The counters of a date in the \<open>dailyActivity\<close> array, read the same way.\<close>

definition dailyActivityFor :: "DailyActivity list \<Rightarrow> string \<Rightarrow> ActivityCounts" where
  "dailyActivityFor entries date =
     countsOf
       (fold (\<lambda>entry m. AList.update (daDate entry)
                \<lparr>acMessageCount = daMessageCount entry, acSessionCount = daSessionCount entry,
                 acToolCallCount = daToolCallCount entry\<rparr> m) entries [])
       date"

text \<open>
  \<open>Array.from(activityMap.entries()).map(([date, v]) => ({ date, ... }))
     .sort((a, b) => (a.date < b.date ? -1 : 1))\<close>, and the same for \<open>modelTokensMap\<close>.
\<close>

definition byActivityDate :: "DailyActivity \<Rightarrow> DailyActivity \<Rightarrow> int" where
  "byActivityDate a b = (if daDate a < daDate b then - 1 else 1)"

definition byTokensDate :: "DailyModelTokens \<Rightarrow> DailyModelTokens \<Rightarrow> int" where
  "byTokensDate a b = (if dmtDate a < dmtDate b then - 1 else 1)"

definition rebuildDailyActivity :: "(string \<times> ActivityCounts) list \<Rightarrow> DailyActivity list" where
  "rebuildDailyActivity am =
     sortJS byActivityDate
       (map (\<lambda>(date, v). \<lparr>daDate = date, daMessageCount = acMessageCount v,
                          daSessionCount = acSessionCount v, daToolCallCount = acToolCallCount v\<rparr>)
            am)"

definition rebuildDailyModelTokens :: "(string \<times> (string \<times> int) list) list \<Rightarrow> DailyModelTokens list" where
  "rebuildDailyModelTokens mtm =
     sortJS byTokensDate (map (\<lambda>(date, tbm). \<lparr>dmtDate = date, dmtTokensByModel = tbm\<rparr>) mtm)"

subsection \<open>mergeRecentSessions\<close>

definition recentSessions :: "string \<Rightarrow> SessionSummaryWithPath list \<Rightarrow> SessionSummaryWithPath list" where
  "recentSessions cutoffDate summaries = filter (\<lambda>s. cutoffDate < sessionDate s) summaries"

text \<open>The copies made before the loop, from the snapshot's own fields.\<close>

definition initialState :: "StatsCache \<Rightarrow> LoopState" where
  "initialState stats =
     \<lparr>activityMap =
        fold (\<lambda>entry m. AList.update (daDate entry)
                \<lparr>acMessageCount = daMessageCount entry, acSessionCount = daSessionCount entry,
                 acToolCallCount = daToolCallCount entry\<rparr> m) (dailyActivity stats) [],
      modelTokensMap =
        fold (\<lambda>entry m. AList.update (dmtDate entry) (dmtTokensByModel entry) m)
             (dailyModelTokens stats) [],
      modelUsageAcc = fold (\<lambda>(model, usage) m. AList.update model usage m) (modelUsage stats) [],
      hourCountsAcc = hourCounts stats,
      messagesAcc = 0,
      longestAcc = longestSession stats\<rparr>"

text \<open>
  \<open>scanned\<close> is the outcome of \<open>scanAllSessionsWithPaths()\<close>: \<open>Inl\<close> when it throws, and then
  \<open>mergeRecentSessions\<close> throws too.
\<close>

definition mergeRecentSessions ::
  "(error + SessionSummaryWithPath list) \<Rightarrow> (SessionSummaryWithPath \<Rightarrow> SessionDetail option) \<Rightarrow>
   (string \<Rightarrow> string) \<Rightarrow> StatsCache \<Rightarrow> error + StatsCache" where
  "mergeRecentSessions scanned pd hourKey stats =
     (case scanned of
        Inl e \<Rightarrow> Inl e
      | Inr summaries \<Rightarrow>
          (let cutoffDate = extractDateString (lastComputedDate stats);
               recent = recentSessions cutoffDate summaries
           in if recent = [] then Inr stats
              else
                (let detailMap = parseDetailsInBatches pd recent;
                     st = fold (sessionStep detailMap hourKey) recent (initialState stats)
                 in Inr (stats\<lparr>dailyActivity := rebuildDailyActivity (activityMap st),
                               dailyModelTokens := rebuildDailyModelTokens (modelTokensMap st),
                               modelUsage := modelUsageAcc st,
                               totalSessions := totalSessions stats + int (length recent),
                               totalMessages := totalMessages stats + messagesAcc st,
                               longestSession := longestAcc st,
                               hourCounts := hourCountsAcc st\<rparr>))))"

subsection \<open>computeStatsFromSessions\<close>

definition emptyState :: LoopState where
  "emptyState =
     \<lparr>activityMap = [], modelTokensMap = [], modelUsageAcc = [], hourCountsAcc = [],
      messagesAcc = 0,
      longestAcc = \<lparr>lsSessionId = [], lsDuration = 0, lsMessageCount = 0, lsTimestamp = []\<rparr>\<rparr>"

text \<open>\<open>if (!firstSessionDate || s.startedAt < firstSessionDate) firstSessionDate = s.startedAt\<close>\<close>

definition firstStep :: "'a SessionSummary_scheme \<Rightarrow> string option \<Rightarrow> string option" where
  "firstStep s first =
     (case first of
        None \<Rightarrow> Some (startedAt s)
      | Some f \<Rightarrow> if f = [] \<or> startedAt s < f then Some (startedAt s) else Some f)"

definition computeStep ::
  "(string \<rightharpoonup> SessionDetail) \<Rightarrow> (string \<Rightarrow> string) \<Rightarrow> SessionSummaryWithPath \<Rightarrow>
   LoopState \<times> string option \<Rightarrow> LoopState \<times> string option" where
  "computeStep detailMap hourKey s p =
     (sessionStep detailMap hourKey s (fst p), firstStep s (snd p))"

text \<open>
  The three readings of \<open>new Date().toISOString()\<close> in the returned object, in the order
  they are taken.
\<close>

record Clock =
  nowComputed :: string
  nowLongest :: string
  nowFirst :: string

definition computeStatsFromSessions ::
  "(error + SessionSummaryWithPath list) \<Rightarrow> (SessionSummaryWithPath \<Rightarrow> SessionDetail option) \<Rightarrow>
   (string \<Rightarrow> string) \<Rightarrow> Clock \<Rightarrow> StatsCache option" where
  "computeStatsFromSessions scanned pd hourKey clock =
     (case scanned of
        Inl e \<Rightarrow> None
      | Inr summaries \<Rightarrow>
          (let detailMap = parseDetailsInBatches pd summaries;
               p = fold (computeStep detailMap hourKey) summaries (emptyState, None);
               st = fst p;
               longest = longestAcc st
           in Some \<lparr>version = 1,
                    lastComputedDate = nowComputed clock,
                    dailyActivity = rebuildDailyActivity (activityMap st),
                    dailyModelTokens = rebuildDailyModelTokens (modelTokensMap st),
                    modelUsage = modelUsageAcc st,
                    totalSessions = int (length summaries),
                    totalMessages = messagesAcc st,
                    longestSession =
                      longest\<lparr>lsTimestamp :=
                        (if lsTimestamp longest = [] then nowLongest clock
                         else lsTimestamp longest)\<rparr>,
                    firstSessionDate = (case snd p of Some f \<Rightarrow> f | None \<Rightarrow> nowFirst clock),
                    hourCounts = hourCountsAcc st\<rparr>))"

subsection \<open>parseStats and maybeEnrichWithRecentSessions\<close>

text \<open>
  What one request observes of the world outside the module: the \<open>stat\<close> of the snapshot
  file (\<open>None\<close> when it rejects, else \<open>mtimeMs\<close>), the disk cache (\<open>readDiskCache\<close>), the
  outcome of reading, parsing and validating the file, whether \<open>writeDiskCache\<close> throws,
  the outcome of the session scan, \<open>parseDetail\<close>, and the clock.
\<close>

record World =
  statMtimeMs :: "int option"
  readDiskCache :: "int \<Rightarrow> StatsCache option"
  readAndValidate :: "error + StatsCache"
  writeDiskCacheThrows :: bool
  scanned :: "error + SessionSummaryWithPath list"
  parseDetail :: "SessionSummaryWithPath \<Rightarrow> SessionDetail option"
  hourKey :: "string \<Rightarrow> string"
  todayIso :: string
  nowMsAtCheck :: int
  nowMsAtMerge :: int
  clock :: Clock

text \<open>The two module-level variables.\<close>

record CachedStats =
  csMtimeMs :: int
  csData :: StatsCache

record MergedCache =
  mcMtimeMs :: int
  mcMergedAt :: int
  mcData :: StatsCache

record ModuleState =
  cachedStats :: "CachedStats option"
  mergedCache :: "MergedCache option"

definition MERGE_STALENESS_MS :: int where
  "MERGE_STALENESS_MS = 60000"

definition getTodayDateString :: "World \<Rightarrow> string" where
  "getTodayDateString w = extractDateString (todayIso w)"

definition mergedCacheFresh :: "World \<Rightarrow> ModuleState \<Rightarrow> int \<Rightarrow> bool" where
  "mergedCacheFresh w ms mtimeMs =
     (case mergedCache ms of
        None \<Rightarrow> False
      | Some mc \<Rightarrow> mcMtimeMs mc = mtimeMs \<and> nowMsAtCheck w - mcMergedAt mc < MERGE_STALENESS_MS)"

definition maybeEnrichWithRecentSessions ::
  "World \<Rightarrow> ModuleState \<Rightarrow> StatsCache \<Rightarrow> int \<Rightarrow> StatsCache \<times> ModuleState" where
  "maybeEnrichWithRecentSessions w ms stats mtimeMs =
     (let today = getTodayDateString w;
          lastComputed = extractDateString (lastComputedDate stats)
      in if today \<le> lastComputed then (stats, ms)
         else if mergedCacheFresh w ms mtimeMs
         then (case mergedCache ms of Some mc \<Rightarrow> (mcData mc, ms) | None \<Rightarrow> (stats, ms))
         else
           (case mergeRecentSessions (scanned w) (parseDetail w) (hourKey w) stats of
              Inr merged \<Rightarrow>
                (merged, ms\<lparr>mergedCache :=
                   Some \<lparr>mcMtimeMs = mtimeMs, mcMergedAt = nowMsAtMerge w, mcData = merged\<rparr>\<rparr>)
            | Inl e \<Rightarrow> (stats, ms)))"

text \<open>
  \<open>parseStats\<close> returns the aggregate or \<open>null\<close> (\<open>None\<close>), and the module state it leaves.
  Every \<open>try\<close> of the source is a case distinction on an outcome of the world.
\<close>

definition parseStats :: "World \<Rightarrow> ModuleState \<Rightarrow> StatsCache option \<times> ModuleState" where
  "parseStats w ms =
     (case statMtimeMs w of
        None \<Rightarrow> (computeStatsFromSessions (scanned w) (parseDetail w) (hourKey w) (clock w), ms)
      | Some mtimeMs \<Rightarrow>
          (case (case cachedStats ms of
                   Some cs \<Rightarrow> if csMtimeMs cs = mtimeMs then Some (csData cs) else None
                 | None \<Rightarrow> None) of
             Some cached \<Rightarrow>
               (let (r, ms') = maybeEnrichWithRecentSessions w ms cached mtimeMs
                in (Some r, ms'))
           | None \<Rightarrow>
               (case readDiskCache w mtimeMs of
                  Some diskResult \<Rightarrow>
                    (let ms1 = ms\<lparr>cachedStats := Some \<lparr>csMtimeMs = mtimeMs, csData = diskResult\<rparr>\<rparr>;
                         (r, ms') = maybeEnrichWithRecentSessions w ms1 diskResult mtimeMs
                     in (Some r, ms'))
                | None \<Rightarrow>
                    (case readAndValidate w of
                       Inl e \<Rightarrow>
                         (computeStatsFromSessions (scanned w) (parseDetail w) (hourKey w) (clock w),
                          ms)
                     | Inr result \<Rightarrow>
                         if writeDiskCacheThrows w
                         then (computeStatsFromSessions (scanned w) (parseDetail w) (hourKey w)
                                 (clock w), ms)
                         else
                           (let ms1 = ms\<lparr>cachedStats :=
                                        Some \<lparr>csMtimeMs = mtimeMs, csData = result\<rparr>\<rparr>;
                                (r, ms') = maybeEnrichWithRecentSessions w ms1 result mtimeMs
                            in (Some r, ms'))))))"

text \<open>
  The snapshot that the three cache tiers yield, if any: the in-memory entry at the file's
  modification time, else the disk cache, else the file itself read and validated (and then
  written to the disk cache).
\<close>

definition obtainedSnapshot :: "World \<Rightarrow> ModuleState \<Rightarrow> StatsCache option" where
  "obtainedSnapshot w ms =
     (case statMtimeMs w of
        None \<Rightarrow> None
      | Some mtime \<Rightarrow>
          (case (case cachedStats ms of
                   Some cs \<Rightarrow> if csMtimeMs cs = mtime then Some (csData cs) else None
                 | None \<Rightarrow> None) of
             Some cached \<Rightarrow> Some cached
           | None \<Rightarrow>
               (case readDiskCache w mtime of
                  Some diskResult \<Rightarrow> Some diskResult
                | None \<Rightarrow>
                    (case readAndValidate w of
                       Inl e \<Rightarrow> None
                     | Inr result \<Rightarrow> if writeDiskCacheThrows w then None else Some result))))"

text \<open>
  No snapshot is to be had from the file: it is missing (\<open>stat\<close> rejects), or no cache tier
  holds it at its modification time and reading, parsing or validating it fails.
\<close>

definition snapshotUnobtainable :: "World \<Rightarrow> ModuleState \<Rightarrow> bool" where
  "snapshotUnobtainable w ms =
     (case statMtimeMs w of
        None \<Rightarrow> True
      | Some mtime \<Rightarrow>
          (case cachedStats ms of Some cs \<Rightarrow> csMtimeMs cs \<noteq> mtime | None \<Rightarrow> True)
          \<and> readDiskCache w mtime = None
          \<and> (case readAndValidate w of Inl e \<Rightarrow> True | Inr result \<Rightarrow> False))"

section \<open>session-scanner.ts\<close>

text \<open>
  What a scan observes: the projects (\<open>scanProjects()\<close>), the root (\<open>getProjectsDir()\<close>),
  \<open>path.join\<close>, \<open>extractSessionId\<close>, the \<open>stat\<close> of a path (\<open>None\<close> when it rejects),
  \<open>parseSummary\<close> (\<open>None\<close> is \<open>null\<close>), \<open>isSessionActive\<close>, and
  \<open>new Date(t).getTime()\<close> (\<open>None\<close> is \<open>NaN\<close>). The scan catches only the rejection
  of \<open>stat\<close>; the other calls are taken where they return, and a scan in which one of them
  throws ends with that exception (the \<open>scanned = Inl e\<close> of \<open>stats-parser.ts\<close>).
\<close>

record ProjectInfo =
  dirName :: string
  decodedPath :: string
  pjProjectName :: string
  sessionFiles :: "string list"

record FileStat =
  mtimeMs :: int
  fsSize :: int

record ScanWorld =
  scanProjects :: "ProjectInfo list"
  getProjectsDir :: string
  pathJoin :: "string \<Rightarrow> string \<Rightarrow> string \<Rightarrow> string"
  extractSessionId :: "string \<Rightarrow> string"
  statFile :: "string \<Rightarrow> FileStat option"
  parseSummary :: "string \<Rightarrow> string \<Rightarrow> string \<Rightarrow> string \<Rightarrow> int \<Rightarrow> SessionSummary option"
  isSessionActive :: "string \<Rightarrow> string \<Rightarrow> bool"
  getTime :: "string \<Rightarrow> int option"

text \<open>An entry of \<open>summaryCache\<close>: \<open>{ mtimeMs, summary }\<close>.\<close>

record CacheEntry =
  ceMtimeMs :: int
  ceSummary :: SessionSummary

text \<open>
  The state a scan threads through its loops: the \<open>summaries\<close> array, the module-level
  \<open>summaryCache\<close>, and the list of the paths handed to \<open>parseSummary\<close> so far (the reads
  of session files the scan has caused).
\<close>

record ScanState =
  summaries :: "SessionSummaryWithPath list"
  summaryCache :: "(string \<times> CacheEntry) list"
  parseCalls :: "string list"

text \<open>\<open>{ ...summary, filePath }\<close>\<close>

definition withPath :: "SessionSummary \<Rightarrow> string \<Rightarrow> SessionSummaryWithPath" where
  "withPath summary fp = SessionSummary.extend summary \<lparr>filePath = fp\<rparr>"

text \<open>\<open>path.join(getProjectsDir(), project.dirName, file)\<close>\<close>

definition sessionFilePath :: "ScanWorld \<Rightarrow> ProjectInfo \<Rightarrow> string \<Rightarrow> string" where
  "sessionFilePath w project file = pathJoin w (getProjectsDir w) (dirName project) file"

text \<open>The body of \<open>for (const file of project.sessionFiles)\<close>.\<close>

definition scanFile :: "ScanWorld \<Rightarrow> ProjectInfo \<Rightarrow> string \<Rightarrow> ScanState \<Rightarrow> ScanState" where
  "scanFile w project file st =
     (let sid = extractSessionId w file;
          fp = sessionFilePath w project file
      in case statFile w fp of
           None \<Rightarrow> st
         | Some stat \<Rightarrow>
             (case (case map_of (summaryCache st) sid of
                      Some cached \<Rightarrow> if ceMtimeMs cached = mtimeMs stat then Some cached else None
                    | None \<Rightarrow> None) of
                Some cached \<Rightarrow>
                  (let active = isSessionActive w (dirName project) sid
                   in st\<lparr>summaries :=
                           summaries st @ [withPath ((ceSummary cached)\<lparr>isActive := active\<rparr>) fp]\<rparr>)
              | None \<Rightarrow>
                  (case parseSummary w fp sid (decodedPath project) (pjProjectName project)
                          (fsSize stat) of
                     Some summary \<Rightarrow>
                       (let active = isSessionActive w (dirName project) sid;
                            summary' = summary\<lparr>isActive := active\<rparr>
                        in st\<lparr>summaries := summaries st @ [withPath summary' fp],
                              summaryCache :=
                                AList.update sid \<lparr>ceMtimeMs = mtimeMs stat, ceSummary = summary'\<rparr>
                                  (summaryCache st),
                              parseCalls := parseCalls st @ [fp]\<rparr>)
                   | None \<Rightarrow> st\<lparr>parseCalls := parseCalls st @ [fp]\<rparr>)))"

definition scanProject :: "ScanWorld \<Rightarrow> ProjectInfo \<Rightarrow> ScanState \<Rightarrow> ScanState" where
  "scanProject w project st = fold (scanFile w project) (sessionFiles project) st"

text \<open>
  \<open>new Date(b.lastActiveAt).getTime() - new Date(a.lastActiveAt).getTime()\<close>; a \<open>NaN\<close>
  result counts as \<open>0\<close> in \<open>sort\<close>.
\<close>

definition lastActiveTime :: "ScanWorld \<Rightarrow> 'a SessionSummary_scheme \<Rightarrow> int option" where
  "lastActiveTime w s = (case lastActiveAt s of Some t \<Rightarrow> getTime w t | None \<Rightarrow> None)"

definition newestFirst ::
  "ScanWorld \<Rightarrow> 'a SessionSummary_scheme \<Rightarrow> 'a SessionSummary_scheme \<Rightarrow> int" where
  "newestFirst w a b =
     (case (lastActiveTime w b, lastActiveTime w a) of
        (Some tb, Some ta) \<Rightarrow> tb - ta
      | _ \<Rightarrow> 0)"

text \<open>\<open>a\<close> was last active no earlier than \<open>b\<close>, both times being known.\<close>

definition notOlder ::
  "ScanWorld \<Rightarrow> 'a SessionSummary_scheme \<Rightarrow> 'a SessionSummary_scheme \<Rightarrow> bool" where
  "notOlder w a b =
     (case (lastActiveTime w a, lastActiveTime w b) of
        (Some ta, Some tb) \<Rightarrow> tb \<le> ta
      | _ \<Rightarrow> False)"

text \<open>The array as the two loops leave it, before it is sorted.\<close>

definition scannedState :: "ScanWorld \<Rightarrow> (string \<times> CacheEntry) list \<Rightarrow> ScanState" where
  "scannedState w cache =
     fold (scanProject w) (scanProjects w) \<lparr>summaries = [], summaryCache = cache, parseCalls = []\<rparr>"

text \<open>
  \<open>scanSessionsInternal\<close>: the array starts empty on every scan, the cache is the one the
  module holds; the result is the sorted array with the cache and the parse log it leaves.
\<close>

definition scanSessionsInternal ::
  "ScanWorld \<Rightarrow> (string \<times> CacheEntry) list \<Rightarrow>
   SessionSummaryWithPath list \<times> (string \<times> CacheEntry) list \<times> string list" where
  "scanSessionsInternal w cache =
     (let st = scannedState w cache
      in (sortJS (newestFirst w) (summaries st), summaryCache st, parseCalls st))"

text \<open>\<open>results.map(({ filePath: _filePath, ...summary }) => summary)\<close>\<close>

definition scanAllSessions ::
  "ScanWorld \<Rightarrow> (string \<times> CacheEntry) list \<Rightarrow>
   SessionSummary list \<times> (string \<times> CacheEntry) list \<times> string list" where
  "scanAllSessions w cache =
     (let (results, rest) = scanSessionsInternal w cache
      in (map SessionSummary.truncate results, rest))"

definition scanAllSessionsWithPaths ::
  "ScanWorld \<Rightarrow> (string \<times> CacheEntry) list \<Rightarrow>
   SessionSummaryWithPath list \<times> (string \<times> CacheEntry) list \<times> string list" where
  "scanAllSessionsWithPaths w cache = scanSessionsInternal w cache"

definition getActiveSessions ::
  "ScanWorld \<Rightarrow> (string \<times> CacheEntry) list \<Rightarrow>
   SessionSummary list \<times> (string \<times> CacheEntry) list \<times> string list" where
  "getActiveSessions w cache =
     (let (all, rest) = scanAllSessions w cache
      in (filter isActive all, rest))"

section \<open>Token accumulation of the detail parser\<close>

text \<open>
  Modelled from the spec: the source of \<open>parseDetail\<close> (session-parser.ts) is not among the
  files; only its tests are. The spec (4.5): token usage is accumulated per model,
  "deduplicated by request identifier: a model/usage pair is added to the running total
  only the first time its request id is seen; subsequent lines carrying the same request id
  are ignored for counting purposes", over the parent log and again over each linked
  sub-agent log. A line is read for its request id and its model/usage pair, either of
  which may be missing. The spec does not say whether a pair on a line with no request id
  is counted: \<open>countNoId\<close> leaves both ways open.
\<close>

record LogLine =
  requestId :: "string option"
  lineModelUsage :: "(string \<times> TokenUsage) option"

record TokenAcc =
  seenRequestIds :: "string list"
  tokenTotals :: "(string \<times> TokenUsage) list"

definition addUsage :: "string \<Rightarrow> TokenUsage \<Rightarrow> (string \<times> TokenUsage) list \<Rightarrow> (string \<times> TokenUsage) list" where
  "addUsage model usage totals =
     (let existing = getOr totals model zeroUsage
      in AList.update model
           \<lparr>inputTokens = inputTokens existing + inputTokens usage,
            outputTokens = outputTokens existing + outputTokens usage,
            cacheReadInputTokens = cacheReadInputTokens existing + cacheReadInputTokens usage,
            cacheCreationInputTokens =
              cacheCreationInputTokens existing + cacheCreationInputTokens usage\<rparr>
           totals)"

definition accumulateLine :: "bool \<Rightarrow> LogLine \<Rightarrow> TokenAcc \<Rightarrow> TokenAcc" where
  "accumulateLine countNoId line acc =
     (case lineModelUsage line of
        None \<Rightarrow> acc
      | Some (model, usage) \<Rightarrow>
          (case requestId line of
             None \<Rightarrow>
               if countNoId then acc\<lparr>tokenTotals := addUsage model usage (tokenTotals acc)\<rparr>
               else acc
           | Some rid \<Rightarrow>
               if rid \<in> set (seenRequestIds acc) then acc
               else acc\<lparr>seenRequestIds := rid # seenRequestIds acc,
                        tokenTotals := addUsage model usage (tokenTotals acc)\<rparr>))"

definition emptyTokenAcc :: TokenAcc where
  "emptyTokenAcc = \<lparr>seenRequestIds = [], tokenTotals = []\<rparr>"

text \<open>The accumulation over one log, parent or sub-agent, each from an empty start.\<close>

definition accumulateTokens :: "bool \<Rightarrow> LogLine list \<Rightarrow> TokenAcc" where
  "accumulateTokens countNoId logLines = fold (accumulateLine countNoId) logLines emptyTokenAcc"

section \<open>mergeRecentSessions on a store\<close>

text \<open>
  The same function with its objects in a store, to follow which object every write goes
  to. A reference is an address; each kind of object has its own table from addresses to
  contents, and \<open>nextRef\<close> is the first address not yet given out. An object literal, a
  spread copy and a new array each take a fresh address; a property assignment overwrites
  the contents at the address of the object assigned to.
\<close>

type_synonym ref = nat

text \<open>The aggregate as an object: its scalars, and references to its arrays and objects.\<close>

record StatsObj =
  soVersion :: int
  soLastComputedDate :: string
  soDailyActivity :: ref
  soDailyModelTokens :: ref
  soModelUsage :: ref
  soTotalSessions :: int
  soTotalMessages :: int
  soLongestSession :: ref
  soFirstSessionDate :: string
  soHourCounts :: ref

record Store =
  statsAt :: "ref \<Rightarrow> StatsObj"
  arrayAt :: "ref \<Rightarrow> ref list"
  activityEntryAt :: "ref \<Rightarrow> DailyActivity"
  tokensEntryAt :: "ref \<Rightarrow> string \<times> ref"
  countsAt :: "ref \<Rightarrow> ActivityCounts"
  numberRecordAt :: "ref \<Rightarrow> (string \<times> int) list"
  usageAt :: "ref \<Rightarrow> TokenUsage"
  usageRecordAt :: "ref \<Rightarrow> (string \<times> ref) list"
  longestAt :: "ref \<Rightarrow> LongestSession"
  nextRef :: ref

definition newStats :: "StatsObj \<Rightarrow> Store \<Rightarrow> ref \<times> Store" where
  "newStats v h = (nextRef h, h\<lparr>statsAt := (statsAt h)(nextRef h := v), nextRef := nextRef h + 1\<rparr>)"

definition newArray :: "ref list \<Rightarrow> Store \<Rightarrow> ref \<times> Store" where
  "newArray v h = (nextRef h, h\<lparr>arrayAt := (arrayAt h)(nextRef h := v), nextRef := nextRef h + 1\<rparr>)"

definition newActivityEntry :: "DailyActivity \<Rightarrow> Store \<Rightarrow> ref \<times> Store" where
  "newActivityEntry v h =
     (nextRef h, h\<lparr>activityEntryAt := (activityEntryAt h)(nextRef h := v), nextRef := nextRef h + 1\<rparr>)"

definition newTokensEntry :: "string \<times> ref \<Rightarrow> Store \<Rightarrow> ref \<times> Store" where
  "newTokensEntry v h =
     (nextRef h, h\<lparr>tokensEntryAt := (tokensEntryAt h)(nextRef h := v), nextRef := nextRef h + 1\<rparr>)"

definition newCounts :: "ActivityCounts \<Rightarrow> Store \<Rightarrow> ref \<times> Store" where
  "newCounts v h = (nextRef h, h\<lparr>countsAt := (countsAt h)(nextRef h := v), nextRef := nextRef h + 1\<rparr>)"

definition newNumberRecord :: "(string \<times> int) list \<Rightarrow> Store \<Rightarrow> ref \<times> Store" where
  "newNumberRecord v h =
     (nextRef h, h\<lparr>numberRecordAt := (numberRecordAt h)(nextRef h := v), nextRef := nextRef h + 1\<rparr>)"

definition newUsage :: "TokenUsage \<Rightarrow> Store \<Rightarrow> ref \<times> Store" where
  "newUsage v h = (nextRef h, h\<lparr>usageAt := (usageAt h)(nextRef h := v), nextRef := nextRef h + 1\<rparr>)"

definition newUsageRecord :: "(string \<times> ref) list \<Rightarrow> Store \<Rightarrow> ref \<times> Store" where
  "newUsageRecord v h =
     (nextRef h, h\<lparr>usageRecordAt := (usageRecordAt h)(nextRef h := v), nextRef := nextRef h + 1\<rparr>)"

definition newLongest :: "LongestSession \<Rightarrow> Store \<Rightarrow> ref \<times> Store" where
  "newLongest v h = (nextRef h, h\<lparr>longestAt := (longestAt h)(nextRef h := v), nextRef := nextRef h + 1\<rparr>)"

text \<open>The assignments the function makes: to a counters object, to a record, to a usage object.\<close>

definition setCounts :: "ref \<Rightarrow> ActivityCounts \<Rightarrow> Store \<Rightarrow> Store" where
  "setCounts r v h = h\<lparr>countsAt := (countsAt h)(r := v)\<rparr>"

definition setNumberRecord :: "ref \<Rightarrow> (string \<times> int) list \<Rightarrow> Store \<Rightarrow> Store" where
  "setNumberRecord r v h = h\<lparr>numberRecordAt := (numberRecordAt h)(r := v)\<rparr>"

definition setUsage :: "ref \<Rightarrow> TokenUsage \<Rightarrow> Store \<Rightarrow> Store" where
  "setUsage r v h = h\<lparr>usageAt := (usageAt h)(r := v)\<rparr>"

definition setUsageRecord :: "ref \<Rightarrow> (string \<times> ref) list \<Rightarrow> Store \<Rightarrow> Store" where
  "setUsageRecord r v h = h\<lparr>usageRecordAt := (usageRecordAt h)(r := v)\<rparr>"

text \<open>
  \<open>for (const entry of stats.dailyActivity) activityMap.set(entry.date, { ... })\<close>: a new
  counters object per entry, holding the entry's numbers.
\<close>

definition copyDailyActivity :: "ref list \<Rightarrow> Store \<Rightarrow> (string \<times> ref) list \<times> Store" where
  "copyDailyActivity entries h =
     fold (\<lambda>e (m, h).
             let entry = activityEntryAt h e;
                 (c, h') = newCounts \<lparr>acMessageCount = daMessageCount entry,
                                      acSessionCount = daSessionCount entry,
                                      acToolCallCount = daToolCallCount entry\<rparr> h
             in (AList.update (daDate entry) c m, h'))
          entries ([], h)"

text \<open>\<open>modelTokensMap.set(entry.date, { ...entry.tokensByModel })\<close>\<close>

definition copyDailyModelTokens :: "ref list \<Rightarrow> Store \<Rightarrow> (string \<times> ref) list \<times> Store" where
  "copyDailyModelTokens entries h =
     fold (\<lambda>e (m, h).
             let (date, tokens) = tokensEntryAt h e;
                 (c, h') = newNumberRecord (numberRecordAt h tokens) h
             in (AList.update date c m, h'))
          entries ([], h)"

text \<open>
  \<open>for (const [model, usage] of Object.entries(stats.modelUsage))
     modelUsage[model] = { ...usage }\<close>, into the new record \<open>target\<close>.
\<close>

definition copyModelUsage :: "(string \<times> ref) list \<Rightarrow> ref \<Rightarrow> Store \<Rightarrow> Store" where
  "copyModelUsage entries target h =
     fold (\<lambda>(model, usage) h.
             let (c, h') = newUsage (usageAt h usage) h
             in setUsageRecord target (AList.update model c (usageRecordAt h' target)) h')
          entries h"

text \<open>The local variables of the loop that hold references, and the message total.\<close>

record LoopRefs =
  lrActivityMap :: "(string \<times> ref) list"
  lrModelTokensMap :: "(string \<times> ref) list"
  lrModelUsage :: ref
  lrHourCounts :: ref
  lrMessages :: int
  lrLongest :: ref

text \<open>\<open>dayTokens[model] = (dayTokens[model] ?? 0) + total\<close>, for each model of the detail.\<close>

definition addDayTokensS :: "(string \<times> TokenUsage) list \<Rightarrow> ref \<Rightarrow> Store \<Rightarrow> Store" where
  "addDayTokensS tbm dayTokens h =
     fold (\<lambda>(model, usage) h.
             let total = inputTokens usage + outputTokens usage
             in setNumberRecord dayTokens
                  (AList.update model (getOr (numberRecordAt h dayTokens) model 0 + total)
                     (numberRecordAt h dayTokens)) h)
          tbm h"

text \<open>
  \<open>const existing = modelUsage[model] ?? { ...zeros }; existing.inputTokens += ...;
   modelUsage[model] = existing\<close>, for one model of the detail and then for each.
\<close>

definition usageStepS :: "string \<Rightarrow> TokenUsage \<Rightarrow> ref \<Rightarrow> Store \<Rightarrow> Store" where
  "usageStepS model usage modelUsageRef h =
     (let (existing, h1) =
            (case map_of (usageRecordAt h modelUsageRef) model of
               Some u \<Rightarrow> (u, h)
             | None \<Rightarrow> newUsage zeroUsage h);
          old = usageAt h1 existing;
          h2 = setUsage existing
                 (old\<lparr>inputTokens := inputTokens old + inputTokens usage,
                      outputTokens := outputTokens old + outputTokens usage,
                      cacheReadInputTokens :=
                        cacheReadInputTokens old + cacheReadInputTokens usage,
                      cacheCreationInputTokens :=
                        cacheCreationInputTokens old + cacheCreationInputTokens usage\<rparr>) h1
      in setUsageRecord modelUsageRef
           (AList.update model existing (usageRecordAt h2 modelUsageRef)) h2)"

definition addModelUsageS :: "(string \<times> TokenUsage) list \<Rightarrow> ref \<Rightarrow> Store \<Rightarrow> Store" where
  "addModelUsageS tbm modelUsageRef h =
     fold (\<lambda>(model, usage) h. usageStepS model usage modelUsageRef h) tbm h"

text \<open>\<open>activityMap.get(date) ?? { messageCount: 0, sessionCount: 0, toolCallCount: 0 }\<close>\<close>

definition currentCounts :: "(string \<times> ref) list \<Rightarrow> string \<Rightarrow> Store \<Rightarrow> ref \<times> Store" where
  "currentCounts am date h =
     (case map_of am date of Some c \<Rightarrow> (c, h) | None \<Rightarrow> newCounts zeroCounts h)"

text \<open>\<open>modelTokensMap.get(date) ?? {}\<close>\<close>

definition currentDayTokens :: "(string \<times> ref) list \<Rightarrow> string \<Rightarrow> Store \<Rightarrow> ref \<times> Store" where
  "currentDayTokens mtm date h =
     (case map_of mtm date of Some t \<Rightarrow> (t, h) | None \<Rightarrow> newNumberRecord [] h)"

text \<open>The branch \<open>if (detail)\<close> of the loop body, \<open>cur\<close> being the counters object of the date.\<close>

definition withDetailS :: "SessionDetail \<Rightarrow> string \<Rightarrow> ref \<Rightarrow> LoopRefs \<Rightarrow> Store \<Rightarrow> LoopRefs \<times> Store" where
  "withDetailS d date cur lr h =
     (let h1 = setCounts cur
                 ((countsAt h cur)\<lparr>acMessageCount :=
                    acMessageCount (countsAt h cur) + int (length (turns d))\<rparr>) h;
          h2 = setCounts cur
                 ((countsAt h1 cur)\<lparr>acToolCallCount :=
                    acToolCallCount (countsAt h1 cur) + toolCallTotal d\<rparr>) h1;
          (dayTokens, h3) = currentDayTokens (lrModelTokensMap lr) date h2;
          h4 = addDayTokensS (tokensByModel d) dayTokens h3;
          h5 = addModelUsageS (tokensByModel d) (lrModelUsage lr) h4
      in (lr\<lparr>lrModelTokensMap := AList.update date dayTokens (lrModelTokensMap lr),
             lrMessages := lrMessages lr + int (length (turns d))\<rparr>, h5))"

text \<open>The \<open>else\<close> branch: the summary's message count, and an empty record for a new date.\<close>

definition withoutDetailS ::
  "SessionSummaryWithPath \<Rightarrow> string \<Rightarrow> ref \<Rightarrow> LoopRefs \<Rightarrow> Store \<Rightarrow> LoopRefs \<times> Store" where
  "withoutDetailS s date cur lr h =
     (let h1 = setCounts cur
                 ((countsAt h cur)\<lparr>acMessageCount :=
                    acMessageCount (countsAt h cur) + messageCount s\<rparr>) h;
          lr' = lr\<lparr>lrMessages := lrMessages lr + messageCount s\<rparr>
      in if map_of (lrModelTokensMap lr) date \<noteq> None then (lr', h1)
         else (let (t, h2) = newNumberRecord [] h1
               in (lr'\<lparr>lrModelTokensMap := AList.update date t (lrModelTokensMap lr)\<rparr>, h2)))"

text \<open>\<open>if (s.durationMs > longestSession.duration) longestSession = { ... }\<close>\<close>

definition longestStepS ::
  "SessionDetail option \<Rightarrow> SessionSummaryWithPath \<Rightarrow> LoopRefs \<Rightarrow> Store \<Rightarrow> LoopRefs \<times> Store" where
  "longestStepS detail s lr h =
     (if lsDuration (longestAt h (lrLongest lr)) < durationMs s
      then (let (l, h') = newLongest
                            \<lparr>lsSessionId = sessionId s, lsDuration = durationMs s,
                             lsMessageCount = msgCountOf detail s,
                             lsTimestamp = lastActiveOrStarted s\<rparr> h
            in (lr\<lparr>lrLongest := l\<rparr>, h'))
      else (lr, h))"

text \<open>One iteration of the loop over the recent sessions.\<close>

definition sessionStepS ::
  "(string \<rightharpoonup> SessionDetail) \<Rightarrow> (string \<Rightarrow> string) \<Rightarrow> SessionSummaryWithPath \<Rightarrow>
   LoopRefs \<times> Store \<Rightarrow> LoopRefs \<times> Store" where
  "sessionStepS detailMap hk s p =
     (let lr = fst p; h = snd p;
          date = sessionDate s;
          detail = detailMap (sessionId s);
          (cur, h1) = currentCounts (lrActivityMap lr) date h;
          h2 = setCounts cur ((countsAt h1 cur)\<lparr>acSessionCount := acSessionCount (countsAt h1 cur) + 1\<rparr>) h1;
          (lr3, h3) = (case detail of
                         Some d \<Rightarrow> withDetailS d date cur lr h2
                       | None \<Rightarrow> withoutDetailS s date cur lr h2);
          lr4 = lr3\<lparr>lrActivityMap := AList.update date cur (lrActivityMap lr3)\<rparr>;
          h4 = setNumberRecord (lrHourCounts lr4)
                 (updateHourCounts hk (numberRecordAt h3 (lrHourCounts lr4)) s) h3
      in longestStepS detail s lr4 h4)"

text \<open>
  The two arrays of the result: a new entry object per pair of the map, collected in a new
  array that is then sorted by date. An entry of \<open>dailyModelTokens\<close> refers to the record
  the map holds.
\<close>

definition rebuildDailyActivityS :: "(string \<times> ref) list \<Rightarrow> Store \<Rightarrow> ref \<times> Store" where
  "rebuildDailyActivityS am h =
     (let (es, h1) =
            fold (\<lambda>(date, v) (es, h).
                    let (e, h') = newActivityEntry
                                    \<lparr>daDate = date, daMessageCount = acMessageCount (countsAt h v),
                                     daSessionCount = acSessionCount (countsAt h v),
                                     daToolCallCount = acToolCallCount (countsAt h v)\<rparr> h
                    in (es @ [e], h'))
                 am ([], h)
      in newArray (sortJS (\<lambda>a b. byActivityDate (activityEntryAt h1 a) (activityEntryAt h1 b)) es) h1)"

definition rebuildDailyModelTokensS :: "(string \<times> ref) list \<Rightarrow> Store \<Rightarrow> ref \<times> Store" where
  "rebuildDailyModelTokensS mtm h =
     (let (es, h1) =
            fold (\<lambda>(date, tokens) (es, h).
                    let (e, h') = newTokensEntry (date, tokens) h in (es @ [e], h'))
                 mtm ([], h)
      in newArray (sortJS (\<lambda>a b. if fst (tokensEntryAt h1 a) < fst (tokensEntryAt h1 b) then - 1 else 1)
                     es) h1)"

definition mergeRecentSessionsS ::
  "(error + SessionSummaryWithPath list) \<Rightarrow> (SessionSummaryWithPath \<Rightarrow> SessionDetail option) \<Rightarrow>
   (string \<Rightarrow> string) \<Rightarrow> ref \<Rightarrow> Store \<Rightarrow> error + ref \<times> Store" where
  "mergeRecentSessionsS scan pd hk statsRef h =
     (case scan of
        Inl e \<Rightarrow> Inl e
      | Inr sums \<Rightarrow>
          (let cutoffDate = extractDateString (soLastComputedDate (statsAt h statsRef));
               recent = recentSessions cutoffDate sums
           in if recent = [] then Inr (statsRef, h)
              else
                (let detailMap = parseDetailsInBatches pd recent;
                     (activityMap, h1) =
                        copyDailyActivity (arrayAt h (soDailyActivity (statsAt h statsRef))) h;
                     (modelTokensMap, h2) =
                        copyDailyModelTokens (arrayAt h1 (soDailyModelTokens (statsAt h1 statsRef))) h1;
                     (hourCounts, h3) =
                        newNumberRecord (numberRecordAt h2 (soHourCounts (statsAt h2 statsRef))) h2;
                     (modelUsage, h4) = newUsageRecord [] h3;
                     h5 = copyModelUsage (usageRecordAt h4 (soModelUsage (statsAt h4 statsRef)))
                            modelUsage h4;
                     (longest, h6) =
                        newLongest (longestAt h5 (soLongestSession (statsAt h5 statsRef))) h5;
                     existingSessionCount = soTotalSessions (statsAt h6 statsRef);
                     (lr, h7) =
                        fold (sessionStepS detailMap hk) recent
                          (\<lparr>lrActivityMap = activityMap, lrModelTokensMap = modelTokensMap,
                            lrModelUsage = modelUsage, lrHourCounts = hourCounts,
                            lrMessages = 0, lrLongest = longest\<rparr>, h6);
                     (dailyActivity, h8) = rebuildDailyActivityS (lrActivityMap lr) h7;
                     (dailyModelTokens, h9) = rebuildDailyModelTokensS (lrModelTokensMap lr) h8
                 in Inr (newStats
                           ((statsAt h9 statsRef)
                              \<lparr>soDailyActivity := dailyActivity,
                               soDailyModelTokens := dailyModelTokens,
                               soModelUsage := lrModelUsage lr,
                               soTotalSessions := existingSessionCount + int (length recent),
                               soTotalMessages :=
                                 soTotalMessages (statsAt h9 statsRef) + lrMessages lr,
                               soLongestSession := lrLongest lr,
                               soHourCounts := lrHourCounts lr\<rparr>) h9))))"

text \<open>
  No object that existed below address \<open>n\<close> differs between two stores: what the snapshot and
  everything reachable from it held before the call, it holds after.
\<close>

definition sameObjectsBelow :: "ref \<Rightarrow> Store \<Rightarrow> Store \<Rightarrow> bool" where
  "sameObjectsBelow n h h' =
     (\<forall>a<n. statsAt h' a = statsAt h a \<and> arrayAt h' a = arrayAt h a
            \<and> activityEntryAt h' a = activityEntryAt h a \<and> tokensEntryAt h' a = tokensEntryAt h a
            \<and> countsAt h' a = countsAt h a \<and> numberRecordAt h' a = numberRecordAt h a
            \<and> usageAt h' a = usageAt h a \<and> usageRecordAt h' a = usageRecordAt h a
            \<and> longestAt h' a = longestAt h a)"

text \<open>
  The invariant of the function's writes, for the store \<open>h0\<close> it was called on and
  \<open>n = nextRef h0\<close>: the store has only grown and the objects below \<open>n\<close> are as they were
  (\<open>frame\<close>); the model-usage record and every usage object it refers to were made since
  (\<open>usageInv\<close>); and so were the objects the two maps and the hour variable refer to
  (\<open>localFresh\<close>).
\<close>

definition frame :: "ref \<Rightarrow> Store \<Rightarrow> Store \<Rightarrow> bool" where
  "frame n h0 h = (n \<le> nextRef h \<and> sameObjectsBelow n h0 h)"

definition usageInv :: "ref \<Rightarrow> Store \<Rightarrow> ref \<Rightarrow> Store \<Rightarrow> bool" where
  "usageInv n h0 mu h =
     (frame n h0 h \<and> n \<le> mu \<and> (\<forall>p\<in>set (usageRecordAt h mu). n \<le> snd p))"

definition localFresh :: "ref \<Rightarrow> LoopRefs \<Rightarrow> bool" where
  "localFresh n lr =
     ((\<forall>p\<in>set (lrActivityMap lr). n \<le> snd p)
      \<and> (\<forall>p\<in>set (lrModelTokensMap lr). n \<le> snd p)
      \<and> n \<le> lrHourCounts lr)"

text \<open>
  What a map of references stands for (each reference replaced by the contents at it), and
  the separation the function maintains: the keys of a map are distinct, no two of them
  share an object, and the objects are allocated.
\<close>

definition absMap :: "(ref \<Rightarrow> 'v) \<Rightarrow> (string \<times> ref) list \<Rightarrow> (string \<times> 'v) list" where
  "absMap f m = map (\<lambda>p. (fst p, f (snd p))) m"

definition sepMap :: "ref \<Rightarrow> (string \<times> ref) list \<Rightarrow> bool" where
  "sepMap n m = (distinct (map fst m) \<and> distinct (map snd m) \<and> (\<forall>p\<in>set m. snd p < n))"

text \<open>The loop state that the local variables and the store stand for.\<close>

definition absLoop :: "Store \<Rightarrow> LoopRefs \<Rightarrow> LoopState" where
  "absLoop h lr =
     \<lparr>activityMap = absMap (countsAt h) (lrActivityMap lr),
      modelTokensMap = absMap (numberRecordAt h) (lrModelTokensMap lr),
      modelUsageAcc = absMap (usageAt h) (usageRecordAt h (lrModelUsage lr)),
      hourCountsAcc = numberRecordAt h (lrHourCounts lr),
      messagesAcc = lrMessages lr,
      longestAcc = longestAt h (lrLongest lr)\<rparr>"

definition sepLoop :: "Store \<Rightarrow> LoopRefs \<Rightarrow> bool" where
  "sepLoop h lr =
     (sepMap (nextRef h) (lrActivityMap lr)
      \<and> sepMap (nextRef h) (lrModelTokensMap lr)
      \<and> lrHourCounts lr < nextRef h
      \<and> (\<forall>p\<in>set (lrModelTokensMap lr). snd p \<noteq> lrHourCounts lr)
      \<and> sepMap (nextRef h) (usageRecordAt h (lrModelUsage lr)))"

text \<open>Every reference of the snapshot is to an allocated object.\<close>

definition wfStats :: "Store \<Rightarrow> ref \<Rightarrow> bool" where
  "wfStats h r =
     (let so = statsAt h r; n = nextRef h
      in r < n
         \<and> (\<forall>e\<in>set (arrayAt h (soDailyActivity so)). e < n)
         \<and> (\<forall>e\<in>set (arrayAt h (soDailyModelTokens so)). e < n \<and> snd (tokensEntryAt h e) < n)
         \<and> soModelUsage so < n
         \<and> (\<forall>p\<in>set (usageRecordAt h (soModelUsage so)). snd p < n)
         \<and> soLongestSession so < n
         \<and> soHourCounts so < n
         \<and> soDailyActivity so < n
         \<and> soDailyModelTokens so < n)"

text \<open>The aggregate that an object of the store stands for.\<close>

definition readStats :: "Store \<Rightarrow> ref \<Rightarrow> StatsCache" where
  "readStats h r =
     (let so = statsAt h r
      in \<lparr>version = soVersion so,
          lastComputedDate = soLastComputedDate so,
          dailyActivity = map (activityEntryAt h) (arrayAt h (soDailyActivity so)),
          dailyModelTokens =
            map (\<lambda>e. \<lparr>dmtDate = fst (tokensEntryAt h e),
                       dmtTokensByModel = numberRecordAt h (snd (tokensEntryAt h e))\<rparr>)
                (arrayAt h (soDailyModelTokens so)),
          modelUsage = map (\<lambda>(model, u). (model, usageAt h u)) (usageRecordAt h (soModelUsage so)),
          totalSessions = soTotalSessions so,
          totalMessages = soTotalMessages so,
          longestSession = longestAt h (soLongestSession so),
          firstSessionDate = soFirstSessionDate so,
          hourCounts = numberRecordAt h (soHourCounts so)\<rparr>)"

section \<open>Concrete inputs\<close>

text \<open>
  A snapshot computed on 2026-01-01 and a session of 2026-01-02 that used model \<open>m\<close> with
  1000 input, 200 output, 50 cache-read and 7 cache-creation tokens.
\<close>

definition exUsage :: TokenUsage where
  "exUsage = \<lparr>inputTokens = 1000, outputTokens = 200,
              cacheReadInputTokens = 50, cacheCreationInputTokens = 7\<rparr>"

definition exDetail :: SessionDetail where
  "exDetail =
     \<lparr>turns = [\<lparr>role = ''user'', turnTimestamp = ''2026-01-02T09:00:00Z''\<rparr>,
               \<lparr>role = ''assistant'', turnTimestamp = ''2026-01-02T10:00:00Z''\<rparr>],
      toolFrequency = [(''Read'', 2), (''Bash'', 1)],
      tokensByModel = [(''m'', exUsage)]\<rparr>"

definition exSession :: SessionSummaryWithPath where
  "exSession =
     \<lparr>sessionId = ''s1'', projectPath = ''/work/p'', projectName = ''p'',
      startedAt = ''2026-01-02T09:00:00Z'', lastActiveAt = Some ''2026-01-02T10:00:00Z'',
      durationMs = 3600000, messageCount = 5, isActive = False,
      filePath = ''/home/u/.claude/projects/-work-p/s1.jsonl''\<rparr>"

definition exOldSession :: SessionSummaryWithPath where
  "exOldSession =
     \<lparr>sessionId = ''s0'', projectPath = ''/work/p'', projectName = ''p'',
      startedAt = ''2026-01-01T08:00:00Z'', lastActiveAt = Some ''2026-01-01T08:00:01Z'',
      durationMs = 1000, messageCount = 4, isActive = False,
      filePath = ''/home/u/.claude/projects/-work-p/s0.jsonl''\<rparr>"

definition exSnapshot :: StatsCache where
  "exSnapshot =
     \<lparr>version = 1, lastComputedDate = ''2026-01-01'',
      dailyActivity = [\<lparr>daDate = ''2026-01-01'', daMessageCount = 4, daSessionCount = 1,
                        daToolCallCount = 2\<rparr>],
      dailyModelTokens = [\<lparr>dmtDate = ''2026-01-01'', dmtTokensByModel = [(''m'', 500)]\<rparr>],
      modelUsage = [(''m'', \<lparr>inputTokens = 400, outputTokens = 100,
                              cacheReadInputTokens = 10, cacheCreationInputTokens = 5\<rparr>)],
      totalSessions = 1, totalMessages = 4,
      longestSession = \<lparr>lsSessionId = ''s0'', lsDuration = 1000, lsMessageCount = 4,
                         lsTimestamp = ''2026-01-01T08:00:01Z''\<rparr>,
      firstSessionDate = ''2026-01-01T08:00:00Z'',
      hourCounts = [(''8'', 1)]\<rparr>"

definition exParseOk :: "SessionSummaryWithPath \<Rightarrow> SessionDetail option" where
  "exParseOk s = Some exDetail"

text \<open>The hour of a UTC timestamp, for a process whose time zone is UTC.\<close>

definition exHourKey :: "string \<Rightarrow> string" where
  "exHourKey t = (let h = take 2 (drop 11 t) in if take 1 h = ''0'' then drop 1 h else h)"

text \<open>The snapshot enriched with that one session, as the code computes it.\<close>

definition exEnriched :: StatsCache where
  "exEnriched =
     \<lparr>version = 1, lastComputedDate = ''2026-01-01'',
      dailyActivity = [\<lparr>daDate = ''2026-01-01'', daMessageCount = 4, daSessionCount = 1,
                        daToolCallCount = 2\<rparr>,
                       \<lparr>daDate = ''2026-01-02'', daMessageCount = 2, daSessionCount = 1,
                        daToolCallCount = 3\<rparr>],
      dailyModelTokens = [\<lparr>dmtDate = ''2026-01-01'', dmtTokensByModel = [(''m'', 500)]\<rparr>,
                          \<lparr>dmtDate = ''2026-01-02'', dmtTokensByModel = [(''m'', 1200)]\<rparr>],
      modelUsage = [(''m'', \<lparr>inputTokens = 1400, outputTokens = 300,
                              cacheReadInputTokens = 60, cacheCreationInputTokens = 12\<rparr>)],
      totalSessions = 2, totalMessages = 6,
      longestSession = \<lparr>lsSessionId = ''s1'', lsDuration = 3600000, lsMessageCount = 2,
                         lsTimestamp = ''2026-01-02T10:00:00Z''\<rparr>,
      firstSessionDate = ''2026-01-01T08:00:00Z'',
      hourCounts = [(''8'', 1), (''9'', 1)]\<rparr>"

text \<open>The same session computed from scratch at noon of 2026-01-03.\<close>

definition exClock :: Clock where
  "exClock = \<lparr>nowComputed = ''2026-01-03T12:00:00.000Z'', nowLongest = ''2026-01-03T12:00:00.001Z'',
              nowFirst = ''2026-01-03T12:00:00.001Z''\<rparr>"

definition exComputed :: StatsCache where
  "exComputed =
     \<lparr>version = 1, lastComputedDate = ''2026-01-03T12:00:00.000Z'',
      dailyActivity = [\<lparr>daDate = ''2026-01-02'', daMessageCount = 2, daSessionCount = 1,
                        daToolCallCount = 3\<rparr>],
      dailyModelTokens = [\<lparr>dmtDate = ''2026-01-02'', dmtTokensByModel = [(''m'', 1200)]\<rparr>],
      modelUsage = [(''m'', \<lparr>inputTokens = 1000, outputTokens = 200,
                              cacheReadInputTokens = 50, cacheCreationInputTokens = 7\<rparr>)],
      totalSessions = 1, totalMessages = 2,
      longestSession = \<lparr>lsSessionId = ''s1'', lsDuration = 3600000, lsMessageCount = 2,
                         lsTimestamp = ''2026-01-02T10:00:00Z''\<rparr>,
      firstSessionDate = ''2026-01-02T09:00:00Z'',
      hourCounts = [(''9'', 1)]\<rparr>"

definition exNoDiskCache :: "int \<Rightarrow> StatsCache option" where
  "exNoDiskCache mtime = None"

text \<open>A snapshot file that is there (modified at 42) and does not parse.\<close>

definition exWorldInvalid :: World where
  "exWorldInvalid =
     \<lparr>statMtimeMs = Some 42, readDiskCache = exNoDiskCache, readAndValidate = Inl ParseError,
      writeDiskCacheThrows = False, scanned = Inr [exSession], parseDetail = exParseOk,
      hourKey = exHourKey, todayIso = ''2026-01-03T12:00:00.000Z'',
      nowMsAtCheck = 1000, nowMsAtMerge = 1001, clock = exClock\<rparr>"

text \<open>A valid snapshot file, stale on 2026-01-03, and a session scan that throws.\<close>

definition exWorldScanFails :: World where
  "exWorldScanFails =
     \<lparr>statMtimeMs = Some 42, readDiskCache = exNoDiskCache, readAndValidate = Inr exSnapshot,
      writeDiskCacheThrows = False, scanned = Inl ScanError, parseDetail = exParseOk,
      hourKey = exHourKey, todayIso = ''2026-01-03T12:00:00.000Z'',
      nowMsAtCheck = 1000, nowMsAtMerge = 1001, clock = exClock\<rparr>"

definition exColdState :: ModuleState where
  "exColdState = \<lparr>cachedStats = None, mergedCache = None\<rparr>"


text \<open>
  A root with one project directory holding the logs of the two sessions above, \<open>s0\<close>
  listed first; \<open>s1\<close> is the active one.
\<close>

definition exPathJoin :: "string \<Rightarrow> string \<Rightarrow> string \<Rightarrow> string" where
  "exPathJoin a b c = a @ ''/'' @ b @ ''/'' @ c"

definition exExtractSessionId :: "string \<Rightarrow> string" where
  "exExtractSessionId file = takeWhile (\<lambda>c. c \<noteq> CHR ''.'') file"

definition exStatFile :: "string \<Rightarrow> FileStat option" where
  "exStatFile p =
     (if p = ''/home/u/.claude/projects/-work-p/s0.jsonl'' then Some \<lparr>mtimeMs = 100, fsSize = 70\<rparr>
      else if p = ''/home/u/.claude/projects/-work-p/s1.jsonl'' then Some \<lparr>mtimeMs = 200, fsSize = 90\<rparr>
      else None)"

definition exParseSummary ::
  "string \<Rightarrow> string \<Rightarrow> string \<Rightarrow> string \<Rightarrow> int \<Rightarrow> SessionSummary option" where
  "exParseSummary fp sid decoded name sz =
     (if sid = ''s0'' then Some (SessionSummary.truncate exOldSession)
      else if sid = ''s1'' then Some (SessionSummary.truncate exSession)
      else None)"

definition exIsSessionActive :: "string \<Rightarrow> string \<Rightarrow> bool" where
  "exIsSessionActive dir sid = (sid = ''s1'')"

definition exGetTime :: "string \<Rightarrow> int option" where
  "exGetTime t =
     (if t = ''2026-01-01T08:00:01Z'' then Some 1767254401000
      else if t = ''2026-01-02T10:00:00Z'' then Some 1767348000000
      else None)"

definition exProject :: ProjectInfo where
  "exProject = \<lparr>dirName = ''-work-p'', decodedPath = ''/work/p'', pjProjectName = ''p'',
                sessionFiles = [''s0.jsonl'', ''s1.jsonl'']\<rparr>"

definition exScanWorld :: ScanWorld where
  "exScanWorld =
     \<lparr>scanProjects = [exProject], getProjectsDir = ''/home/u/.claude/projects'',
      pathJoin = exPathJoin, extractSessionId = exExtractSessionId, statFile = exStatFile,
      parseSummary = exParseSummary, isSessionActive = exIsSessionActive, getTime = exGetTime\<rparr>"

text \<open>What the scan of that root returns, and the cache it leaves.\<close>

definition exOldActive :: SessionSummaryWithPath where
  "exOldActive = exOldSession"

definition exNewActive :: SessionSummaryWithPath where
  "exNewActive = exSession\<lparr>isActive := True\<rparr>"

definition exCache :: "(string \<times> CacheEntry) list" where
  "exCache =
     [(''s0'', \<lparr>ceMtimeMs = 100, ceSummary = SessionSummary.truncate exOldActive\<rparr>),
      (''s1'', \<lparr>ceMtimeMs = 200, ceSummary = SessionSummary.truncate exNewActive\<rparr>)]"

text \<open>
  Lines of a sub-agent log: two under request id \<open>req-same\<close> with the same usage, one
  under \<open>req-different\<close>.
\<close>

definition exLineSame :: LogLine where
  "exLineSame =
     \<lparr>requestId = Some ''req-same'',
      lineModelUsage = Some (''claude-opus-4-6'',
        \<lparr>inputTokens = 5000, outputTokens = 1000,
         cacheReadInputTokens = 2000, cacheCreationInputTokens = 500\<rparr>)\<rparr>"

definition exLineDifferent :: LogLine where
  "exLineDifferent =
     \<lparr>requestId = Some ''req-different'',
      lineModelUsage = Some (''claude-opus-4-6'',
        \<lparr>inputTokens = 8000, outputTokens = 2000,
         cacheReadInputTokens = 3000, cacheCreationInputTokens = 1000\<rparr>)\<rparr>"

text \<open>
  A store holding that snapshot: the aggregate at address 0, its \<open>dailyActivity\<close> array at 1
  with the entry at 2, its \<open>dailyModelTokens\<close> array at 3 with the entry at 4 and the
  entry's record at 5, its \<open>modelUsage\<close> record at 6 with the usage object at 7, its longest
  session at 8 and its hour counts at 9. The next free address is 10; what the tables give
  at the other addresses is never read.
\<close>

definition exStatsObj :: StatsObj where
  "exStatsObj =
     \<lparr>soVersion = 1, soLastComputedDate = ''2026-01-01'', soDailyActivity = 1,
      soDailyModelTokens = 3, soModelUsage = 6, soTotalSessions = 1, soTotalMessages = 4,
      soLongestSession = 8, soFirstSessionDate = ''2026-01-01T08:00:00Z'', soHourCounts = 9\<rparr>"

definition exStore :: Store where
  "exStore =
     \<lparr>statsAt = (\<lambda>a. exStatsObj),
      arrayAt = (\<lambda>a. [])(1 := [2], 3 := [4]),
      activityEntryAt = (\<lambda>a. \<lparr>daDate = ''2026-01-01'', daMessageCount = 4, daSessionCount = 1,
                                daToolCallCount = 2\<rparr>),
      tokensEntryAt = (\<lambda>a. (''2026-01-01'', 5)),
      countsAt = (\<lambda>a. zeroCounts),
      numberRecordAt = (\<lambda>a. [])(5 := [(''m'', 500)], 9 := [(''8'', 1)]),
      usageAt = (\<lambda>a. \<lparr>inputTokens = 400, outputTokens = 100,
                        cacheReadInputTokens = 10, cacheCreationInputTokens = 5\<rparr>),
      usageRecordAt = (\<lambda>a. [])(6 := [(''m'', 7)]),
      longestAt = (\<lambda>a. \<lparr>lsSessionId = ''s0'', lsDuration = 1000, lsMessageCount = 4,
                          lsTimestamp = ''2026-01-01T08:00:01Z''\<rparr>),
      nextRef = 10\<rparr>"

text \<open>
  Two project directories that each hold a file \<open>s1.jsonl\<close>: the session of project \<open>p\<close>
  above, and a session of project \<open>q\<close> of the same day. The scanner takes the session id
  from the file name, so both summaries carry the id \<open>s1\<close>. The log of \<open>q\<close> does not parse
  in full (\<open>parseDetail\<close> throws), that of \<open>p\<close> does.
\<close>

definition exTwinSession :: SessionSummaryWithPath where
  "exTwinSession =
     \<lparr>sessionId = ''s1'', projectPath = ''/work/q'', projectName = ''q'',
      startedAt = ''2026-01-02T08:00:00Z'', lastActiveAt = Some ''2026-01-02T08:30:00Z'',
      durationMs = 1800000, messageCount = 7, isActive = False,
      filePath = ''/home/u/.claude/projects/-work-q/s1.jsonl''\<rparr>"

definition exParseTwin :: "SessionSummaryWithPath \<Rightarrow> SessionDetail option" where
  "exParseTwin s =
     (if filePath s = ''/home/u/.claude/projects/-work-p/s1.jsonl'' then Some exDetail else None)"

text \<open>The snapshot enriched with both, as the code computes it.\<close>

definition exEnrichedTwin :: StatsCache where
  "exEnrichedTwin =
     \<lparr>version = 1, lastComputedDate = ''2026-01-01'',
      dailyActivity = [\<lparr>daDate = ''2026-01-01'', daMessageCount = 4, daSessionCount = 1,
                        daToolCallCount = 2\<rparr>,
                       \<lparr>daDate = ''2026-01-02'', daMessageCount = 4, daSessionCount = 2,
                        daToolCallCount = 6\<rparr>],
      dailyModelTokens = [\<lparr>dmtDate = ''2026-01-01'', dmtTokensByModel = [(''m'', 500)]\<rparr>,
                          \<lparr>dmtDate = ''2026-01-02'', dmtTokensByModel = [(''m'', 2400)]\<rparr>],
      modelUsage = [(''m'', \<lparr>inputTokens = 2400, outputTokens = 500,
                              cacheReadInputTokens = 110, cacheCreationInputTokens = 19\<rparr>)],
      totalSessions = 3, totalMessages = 8,
      longestSession = \<lparr>lsSessionId = ''s1'', lsDuration = 3600000, lsMessageCount = 2,
                         lsTimestamp = ''2026-01-02T10:00:00Z''\<rparr>,
      firstSessionDate = ''2026-01-01T08:00:00Z'',
      hourCounts = [(''8'', 2), (''9'', 1)]\<rparr>"

text \<open>The scan of the two directories, the files modified at 200 and at 300.\<close>

definition exProjectP :: ProjectInfo where
  "exProjectP = \<lparr>dirName = ''-work-p'', decodedPath = ''/work/p'', pjProjectName = ''p'',
                 sessionFiles = [''s1.jsonl'']\<rparr>"

definition exProjectQ :: ProjectInfo where
  "exProjectQ = \<lparr>dirName = ''-work-q'', decodedPath = ''/work/q'', pjProjectName = ''q'',
                 sessionFiles = [''s1.jsonl'']\<rparr>"

definition exTwinStatFile :: "string \<Rightarrow> FileStat option" where
  "exTwinStatFile p =
     (if p = ''/home/u/.claude/projects/-work-p/s1.jsonl'' then Some \<lparr>mtimeMs = 200, fsSize = 90\<rparr>
      else if p = ''/home/u/.claude/projects/-work-q/s1.jsonl'' then Some \<lparr>mtimeMs = 300, fsSize = 80\<rparr>
      else None)"

definition exTwinParseSummary ::
  "string \<Rightarrow> string \<Rightarrow> string \<Rightarrow> string \<Rightarrow> int \<Rightarrow> SessionSummary option" where
  "exTwinParseSummary fp sid decoded name sz =
     (if fp = ''/home/u/.claude/projects/-work-p/s1.jsonl''
      then Some (SessionSummary.truncate exSession)
      else if fp = ''/home/u/.claude/projects/-work-q/s1.jsonl''
      then Some (SessionSummary.truncate exTwinSession)
      else None)"

definition exTwinGetTime :: "string \<Rightarrow> int option" where
  "exTwinGetTime t =
     (if t = ''2026-01-02T10:00:00Z'' then Some 1767348000000
      else if t = ''2026-01-02T08:30:00Z'' then Some 1767342600000
      else None)"

definition exTwinWorld :: ScanWorld where
  "exTwinWorld =
     \<lparr>scanProjects = [exProjectP, exProjectQ], getProjectsDir = ''/home/u/.claude/projects'',
      pathJoin = exPathJoin, extractSessionId = exExtractSessionId, statFile = exTwinStatFile,
      parseSummary = exTwinParseSummary, isSessionActive = (\<lambda>dir sid. False),
      getTime = exTwinGetTime\<rparr>"

text \<open>The same two directories with both files modified at 200.\<close>

definition exTwinStatFileSame :: "string \<Rightarrow> FileStat option" where
  "exTwinStatFileSame p =
     (if p = ''/home/u/.claude/projects/-work-p/s1.jsonl'' then Some \<lparr>mtimeMs = 200, fsSize = 90\<rparr>
      else if p = ''/home/u/.claude/projects/-work-q/s1.jsonl'' then Some \<lparr>mtimeMs = 200, fsSize = 80\<rparr>
      else None)"

definition exTwinWorldSame :: ScanWorld where
  "exTwinWorldSame = exTwinWorld\<lparr>statFile := exTwinStatFileSame\<rparr>"

text \<open>The cache a scan of them leaves: one entry, the one stored last.\<close>

definition exTwinCache :: "(string \<times> CacheEntry) list" where
  "exTwinCache =
     [(''s1'', \<lparr>ceMtimeMs = 300, ceSummary = SessionSummary.truncate exTwinSession\<rparr>)]"

section \<open>Facts about the helpers\<close>

lemma getOr_update:
  "getOr (AList.update k v m) k' d = (if k' = k then v else getOr m k' d)"
  by (simp add: getOr_def update_conv')

lemma getOr_Nil [simp]: "getOr [] k d = d"
  by (simp add: getOr_def)

lemma storeBatch_append:
  "storeBatch pd (xs @ ys) r = storeBatch pd ys (storeBatch pd xs r)"
  by (simp add: storeBatch_def)

lemma storeBatch_Cons:
  "storeBatch pd (a # xs) r =
     storeBatch pd xs (case pd a of Some d \<Rightarrow> r(sessionId a \<mapsto> d) | None \<Rightarrow> r)"
  by (simp add: storeBatch_def)

text \<open>The batches, taken together, store the sessions in order.\<close>

lemma batchLoop_drop: "batchLoop pd xs i r = storeBatch pd (drop i xs) r"
proof (induction pd xs i r rule: batchLoop.induct)
  case (1 pd sessions i results)
  show ?case
  proof (cases "i < length sessions")
    case True
    have "take batchSize (drop i sessions) @ drop (i + batchSize) sessions = drop i sessions"
      using append_take_drop_id[of batchSize "drop i sessions"] by (simp add: add.commute)
    then have "storeBatch pd (drop i sessions) results =
       storeBatch pd (drop (i + batchSize) sessions)
         (storeBatch pd (take batchSize (drop i sessions)) results)"
      using storeBatch_append[of pd "take batchSize (drop i sessions)"
          "drop (i + batchSize) sessions" results] by simp
    moreover have "batchLoop pd sessions i results =
        batchLoop pd sessions (i + batchSize)
          (storeBatch pd (take batchSize (drop i sessions)) results)"
      using True by (subst batchLoop.simps) simp
    ultimately show ?thesis using 1[OF True] by simp
  next
    case False
    then have "batchLoop pd sessions i results = results"
      by (subst batchLoop.simps) simp
    with False show ?thesis by (simp add: storeBatch_def)
  qed
qed

lemma parseDetailsInBatches_fold: "parseDetailsInBatches pd xs = storeBatch pd xs Map.empty"
  by (simp add: parseDetailsInBatches_def batchLoop_drop)

lemma storeBatch_none:
  "\<forall>t\<in>set xs. sessionId t = k \<longrightarrow> pd t = None \<Longrightarrow> storeBatch pd xs r k = r k"
proof (induction xs arbitrary: r)
  case Nil then show ?case by (simp add: storeBatch_def)
next
  case (Cons a xs)
  then show ?case unfolding storeBatch_Cons by (cases "pd a") auto
qed

lemma storeBatch_unique:
  assumes "s \<in> set xs" and "\<forall>t\<in>set xs. sessionId t = sessionId s \<longrightarrow> t = s" and "pd s = Some d"
  shows "storeBatch pd xs r (sessionId s) = Some d"
  using assms
proof (induction xs arbitrary: r)
  case Nil then show ?case by simp
next
  case (Cons a xs)
  show ?case
  proof (cases "s \<in> set xs")
    case True
    with Cons show ?thesis unfolding storeBatch_Cons by auto
  next
    case False
    with Cons.prems have as: "a = s" by auto
    have "\<forall>t\<in>set xs. sessionId t = sessionId s \<longrightarrow> pd t = None"
      using Cons.prems False by auto
    from storeBatch_none[OF this] Cons.prems(3) as
    show ?thesis unfolding storeBatch_Cons by simp
  qed
qed

lemma parseDetailsInBatches_none:
  "\<forall>t\<in>set xs. sessionId t = k \<longrightarrow> pd t = None \<Longrightarrow> parseDetailsInBatches pd xs k = None"
  by (simp add: parseDetailsInBatches_fold storeBatch_none)

lemma parseDetailsInBatches_unique:
  "s \<in> set xs \<Longrightarrow> \<forall>t\<in>set xs. sessionId t = sessionId s \<longrightarrow> t = s \<Longrightarrow> pd s = Some d \<Longrightarrow>
   parseDetailsInBatches pd xs (sessionId s) = Some d"
  by (simp add: parseDetailsInBatches_fold storeBatch_unique)

text \<open>What the token loop adds to one model's entry of the day.\<close>

lemma addDayTokens_Cons:
  "addDayTokens ((m, u) # tbm) dt =
     addDayTokens tbm (AList.update m (getOr dt m 0 + (inputTokens u + outputTokens u)) dt)"
  by (simp add: addDayTokens_def Let_def)

lemma addDayTokens_notin:
  "model \<notin> fst ` set tbm \<Longrightarrow> getOr (addDayTokens tbm dt) model d = getOr dt model d"
proof (induction tbm arbitrary: dt)
  case Nil then show ?case by (simp add: addDayTokens_def)
next
  case (Cons a tbm)
  obtain m u where a: "a = (m, u)" by (cases a)
  from Cons.prems a have "model \<noteq> m" "model \<notin> fst ` set tbm" by auto
  then show ?case unfolding a addDayTokens_Cons
    using Cons.IH by (simp add: getOr_update)
qed

lemma addDayTokens_distinct:
  "distinct (map fst tbm) \<Longrightarrow> map_of tbm model = Some usage \<Longrightarrow>
   getOr (addDayTokens tbm dt) model 0 =
     getOr dt model 0 + (inputTokens usage + outputTokens usage)"
proof (induction tbm arbitrary: dt)
  case Nil then show ?case by simp
next
  case (Cons a tbm)
  obtain m u where a: "a = (m, u)" by (cases a)
  show ?case
  proof (cases "m = model")
    case True
    with Cons.prems a have u: "u = usage" and notin: "model \<notin> fst ` set tbm" by auto
    show ?thesis unfolding a addDayTokens_Cons
      using addDayTokens_notin[OF notin] True u by (simp add: getOr_update)
  next
    case False
    with Cons.prems a have "distinct (map fst tbm)" "map_of tbm model = Some usage" by auto
    from Cons.IH[OF this] False show ?thesis unfolding a addDayTokens_Cons
      by (simp add: getOr_update)
  qed
qed

section \<open>The loop body, field by field\<close>

lemma sessionStep_tokens_Some:
  "detailMap (sessionId s) = Some d \<Longrightarrow>
   modelTokensMap (sessionStep detailMap hk s st) =
     AList.update (sessionDate s)
       (addDayTokens (tokensByModel d) (getOr (modelTokensMap st) (sessionDate s) []))
       (modelTokensMap st)"
  by (simp add: sessionStep_def Let_def)

lemma sessionStep_tokens_None:
  "detailMap (sessionId s) = None \<Longrightarrow>
   modelTokensMap (sessionStep detailMap hk s st) =
     (if map_of (modelTokensMap st) (sessionDate s) \<noteq> None then modelTokensMap st
      else AList.update (sessionDate s) [] (modelTokensMap st))"
  by (simp add: sessionStep_def Let_def)

lemma sessionStep_activity_None:
  "detailMap (sessionId s) = None \<Longrightarrow>
   activityMap (sessionStep detailMap hk s st) =
     AList.update (sessionDate s)
       ((countsOf (activityMap st) (sessionDate s))
          \<lparr>acSessionCount := acSessionCount (countsOf (activityMap st) (sessionDate s)) + 1,
           acMessageCount :=
             acMessageCount (countsOf (activityMap st) (sessionDate s)) + messageCount s\<rparr>)
       (activityMap st)"
  by (simp add: sessionStep_def Let_def countsOf_def)

lemma sessionStep_activity_Some:
  "detailMap (sessionId s) = Some d \<Longrightarrow>
   activityMap (sessionStep detailMap hk s st) =
     AList.update (sessionDate s)
       ((countsOf (activityMap st) (sessionDate s))
          \<lparr>acSessionCount := acSessionCount (countsOf (activityMap st) (sessionDate s)) + 1,
           acMessageCount :=
             acMessageCount (countsOf (activityMap st) (sessionDate s)) + int (length (turns d)),
           acToolCallCount :=
             acToolCallCount (countsOf (activityMap st) (sessionDate s)) + toolCallTotal d\<rparr>)
       (activityMap st)"
  by (simp add: sessionStep_def Let_def countsOf_def)

lemma sessionStep_usage_None:
  "detailMap (sessionId s) = None \<Longrightarrow>
   modelUsageAcc (sessionStep detailMap hk s st) = modelUsageAcc st"
  by (simp add: sessionStep_def Let_def)

lemma sessionStep_messages_None:
  "detailMap (sessionId s) = None \<Longrightarrow>
   messagesAcc (sessionStep detailMap hk s st) = messagesAcc st + messageCount s"
  by (simp add: sessionStep_def Let_def)

lemma dayTokensOf_add_empty:
  "map_of mtm date = None \<Longrightarrow>
   dayTokensOf (AList.update date [] mtm) date' model = dayTokensOf mtm date' model"
  by (simp add: dayTokensOf_def getOr_update) (simp add: getOr_def)

lemma fst_computeStep: "fst (computeStep detailMap hk s p) = sessionStep detailMap hk s (fst p)"
  by (simp add: computeStep_def)

section \<open>The concrete inputs, evaluated\<close>

lemma ex_sessionDate: "sessionDate exSession = ''2026-01-02''"
  by (simp add: sessionDate_def lastActiveOrStarted_def extractDateString_def exSession_def)

lemma ex_oldSessionDate: "sessionDate exOldSession = ''2026-01-01''"
  by (simp add: sessionDate_def lastActiveOrStarted_def extractDateString_def exOldSession_def)

lemma ex_sessionId: "sessionId exSession = ''s1''"
  by (simp add: exSession_def)

lemma ex_cutoff: "extractDateString (lastComputedDate exSnapshot) = ''2026-01-01''"
  by (simp add: exSnapshot_def extractDateString_def)

lemma ex_detailMap:
  "parseDetailsInBatches exParseOk [exSession] = [''s1'' \<mapsto> exDetail]"
  by (simp add: parseDetailsInBatches_fold storeBatch_def exParseOk_def exSession_def)

lemma ex_recent: "recentSessions ''2026-01-01'' [exSession] = [exSession]"
  by (simp add: recentSessions_def ex_sessionDate)

lemma ex_merge:
  "mergeRecentSessions (Inr [exSession]) exParseOk exHourKey exSnapshot = Inr exEnriched"
  apply (simp add: mergeRecentSessions_def Let_def)
  apply (simp add: exSnapshot_def extractDateString_def ex_recent ex_detailMap)
  apply (simp add: sessionStep_def Let_def initialState_def exSession_def sessionDate_def
      lastActiveOrStarted_def extractDateString_def getOr_def zeroCounts_def exDetail_def
      toolCallTotal_def addDayTokens_def addModelUsage_def exUsage_def zeroUsage_def
      updateHourCounts_def exHourKey_def longestStep_def msgCountOf_def
      rebuildDailyActivity_def rebuildDailyModelTokens_def sortJS_def byActivityDate_def byTokensDate_def exEnriched_def)
  done

lemma ex_compute:
  "computeStatsFromSessions (Inr [exSession]) exParseOk exHourKey exClock = Some exComputed"
  apply (simp add: computeStatsFromSessions_def Let_def ex_detailMap computeStep_def)
  apply (simp add: sessionStep_def Let_def emptyState_def exSession_def sessionDate_def
      lastActiveOrStarted_def extractDateString_def getOr_def zeroCounts_def exDetail_def
      toolCallTotal_def addDayTokens_def addModelUsage_def exUsage_def zeroUsage_def
      updateHourCounts_def exHourKey_def longestStep_def msgCountOf_def firstStep_def
      rebuildDailyActivity_def rebuildDailyModelTokens_def sortJS_def byActivityDate_def byTokensDate_def exComputed_def
      exClock_def)
  done

section \<open>Enrichment and full computation\<close>

text \<open>
  C3. The delta of an enrichment is exactly the scanned sessions whose date (of last
  activity) is strictly after the date of the snapshot's computation. A session dated on or
  before it contributes to nothing: the enriched aggregate is the same with and without it,
  and a scan holding only such sessions leaves the snapshot as it is.
\<close>

theorem enrichment_delta_strictly_after_cutoff:
  "(s \<in> set (recentSessions (extractDateString (lastComputedDate stats)) sessions)
      \<longleftrightarrow> s \<in> set sessions \<and> extractDateString (lastComputedDate stats) < sessionDate s)
   \<and> (sessionDate t \<le> extractDateString (lastComputedDate stats) \<longrightarrow>
        mergeRecentSessions (Inr (xs @ t # ys)) pd hk stats
          = mergeRecentSessions (Inr (xs @ ys)) pd hk stats)
   \<and> ((\<forall>u\<in>set sessions. sessionDate u \<le> extractDateString (lastComputedDate stats)) \<longrightarrow>
        mergeRecentSessions (Inr sessions) pd hk stats = Inr stats)"
proof (intro conjI impI)
  show "s \<in> set (recentSessions (extractDateString (lastComputedDate stats)) sessions)
      \<longleftrightarrow> s \<in> set sessions \<and> extractDateString (lastComputedDate stats) < sessionDate s"
    by (simp add: recentSessions_def)
next
  assume "sessionDate t \<le> extractDateString (lastComputedDate stats)"
  then have "\<not> extractDateString (lastComputedDate stats) < sessionDate t" by simp
  then have "recentSessions (extractDateString (lastComputedDate stats)) (xs @ t # ys)
      = recentSessions (extractDateString (lastComputedDate stats)) (xs @ ys)"
    by (simp add: recentSessions_def)
  then show "mergeRecentSessions (Inr (xs @ t # ys)) pd hk stats
          = mergeRecentSessions (Inr (xs @ ys)) pd hk stats"
    by (simp add: mergeRecentSessions_def)
next
  assume "\<forall>u\<in>set sessions. sessionDate u \<le> extractDateString (lastComputedDate stats)"
  then have "recentSessions (extractDateString (lastComputedDate stats)) sessions = []"
    by (auto simp: recentSessions_def filter_empty_conv)
  then show "mergeRecentSessions (Inr sessions) pd hk stats = Inr stats"
    by (simp add: mergeRecentSessions_def)
qed

theorem enrichment_delta_strictly_after_cutoff_witness:
  "sessionDate exOldSession = ''2026-01-01'' \<and> sessionDate exSession = ''2026-01-02''
   \<and> extractDateString (lastComputedDate exSnapshot) = ''2026-01-01''
   \<and> exSession \<in> set (recentSessions ''2026-01-01'' [exOldSession, exSession])
   \<and> exOldSession \<notin> set (recentSessions ''2026-01-01'' [exOldSession, exSession])
   \<and> mergeRecentSessions (Inr [exOldSession, exSession]) exParseOk exHourKey exSnapshot
        = Inr exEnriched
   \<and> mergeRecentSessions (Inr [exOldSession]) exParseOk exHourKey exSnapshot = Inr exSnapshot"
proof -
  have le: "sessionDate exOldSession \<le> extractDateString (lastComputedDate exSnapshot)"
    by (simp add: ex_oldSessionDate ex_cutoff)
  have lt: "extractDateString (lastComputedDate exSnapshot) < sessionDate exSession"
    by (simp add: ex_sessionDate ex_cutoff)
  have nlt: "\<not> extractDateString (lastComputedDate exSnapshot) < sessionDate exOldSession"
    by (simp add: ex_oldSessionDate ex_cutoff)
  have all: "\<forall>u\<in>set [exOldSession]. sessionDate u \<le> extractDateString (lastComputedDate exSnapshot)"
    using le by simp
  show ?thesis
    using enrichment_delta_strictly_after_cutoff[of exSession exSnapshot
        "[exOldSession, exSession]" exOldSession "[]" "[exSession]" exParseOk exHourKey]
      enrichment_delta_strictly_after_cutoff[of exOldSession exSnapshot
        "[exOldSession, exSession]" exOldSession "[]" "[]" exParseOk exHourKey]
      enrichment_delta_strictly_after_cutoff[of exOldSession exSnapshot
        "[exOldSession]" exOldSession "[]" "[]" exParseOk exHourKey]
      le lt nlt all
    by (simp add: ex_merge ex_oldSessionDate ex_sessionDate ex_cutoff)
qed

section \<open>The snapshot tiers and their fallbacks\<close>

lemma computeStats_Inr:
  "computeStatsFromSessions (Inr sessions) pd hk clk = Some r \<Longrightarrow>
   lastComputedDate r = nowComputed clk \<and> totalSessions r = int (length sessions)"
  by (auto simp: computeStatsFromSessions_def Let_def)

lemma computeStats_Inr_ex:
  "\<exists>r. computeStatsFromSessions (Inr sessions) pd hk clk = Some r"
  by (simp add: computeStatsFromSessions_def Let_def)

lemma mergedCacheFresh_cong:
  "mergedCache ms1 = mergedCache ms \<Longrightarrow> mergedCacheFresh w ms1 mtime = mergedCacheFresh w ms mtime"
  by (simp add: mergedCacheFresh_def)

lemma maybeEnrich_scan_fails:
  assumes "\<not> getTodayDateString w \<le> extractDateString (lastComputedDate stats)"
    and "\<not> mergedCacheFresh w ms mtime"
    and "scanned w = Inl e"
  shows "maybeEnrichWithRecentSessions w ms stats mtime = (stats, ms)"
  using assms
  by (simp add: maybeEnrichWithRecentSessions_def mergeRecentSessions_def)

text \<open>With a snapshot in hand, \<open>parseStats\<close> is the enrichment of that snapshot.\<close>

lemma parseStats_obtained:
  assumes "statMtimeMs w = Some mtime" and "obtainedSnapshot w ms = Some stats"
  shows "\<exists>ms1. mergedCache ms1 = mergedCache ms
           \<and> parseStats w ms =
               (Some (fst (maybeEnrichWithRecentSessions w ms1 stats mtime)),
                snd (maybeEnrichWithRecentSessions w ms1 stats mtime))"
proof (cases "case cachedStats ms of
                Some cs \<Rightarrow> if csMtimeMs cs = mtime then Some (csData cs) else None
              | None \<Rightarrow> None")
  case (Some cached)
  with assms have "cached = stats" by (simp add: obtainedSnapshot_def)
  with Some assms(1) have "parseStats w ms =
               (Some (fst (maybeEnrichWithRecentSessions w ms stats mtime)),
                snd (maybeEnrichWithRecentSessions w ms stats mtime))"
    by (simp add: parseStats_def split_beta Let_def)
  then show ?thesis by blast
next
  case None
  note mem = None
  show ?thesis
  proof (cases "readDiskCache w mtime")
    case (Some diskResult)
    with mem assms have "diskResult = stats" by (simp add: obtainedSnapshot_def)
    with Some mem assms(1) have "parseStats w ms =
        (Some (fst (maybeEnrichWithRecentSessions w
                 (ms\<lparr>cachedStats := Some \<lparr>csMtimeMs = mtime, csData = stats\<rparr>\<rparr>) stats mtime)),
         snd (maybeEnrichWithRecentSessions w
                 (ms\<lparr>cachedStats := Some \<lparr>csMtimeMs = mtime, csData = stats\<rparr>\<rparr>) stats mtime))"
      by (simp add: parseStats_def split_beta Let_def)
    moreover have "mergedCache (ms\<lparr>cachedStats := Some \<lparr>csMtimeMs = mtime, csData = stats\<rparr>\<rparr>)
        = mergedCache ms" by simp
    ultimately show ?thesis by blast
  next
    case None
    with mem assms obtain result where r: "readAndValidate w = Inr result"
      by (cases "readAndValidate w") (simp_all add: obtainedSnapshot_def)
    with None mem assms have nw: "\<not> writeDiskCacheThrows w" and rs: "result = stats"
      by (simp_all add: obtainedSnapshot_def split: if_splits)
    from None mem assms(1) r nw rs have "parseStats w ms =
        (Some (fst (maybeEnrichWithRecentSessions w
                 (ms\<lparr>cachedStats := Some \<lparr>csMtimeMs = mtime, csData = stats\<rparr>\<rparr>) stats mtime)),
         snd (maybeEnrichWithRecentSessions w
                 (ms\<lparr>cachedStats := Some \<lparr>csMtimeMs = mtime, csData = stats\<rparr>\<rparr>) stats mtime))"
      by (simp add: parseStats_def split_beta Let_def)
    moreover have "mergedCache (ms\<lparr>cachedStats := Some \<lparr>csMtimeMs = mtime, csData = stats\<rparr>\<rparr>)
        = mergedCache ms" by simp
    ultimately show ?thesis by blast
  qed
qed

text \<open>
  C4. When the snapshot file is missing, or no cache tier holds it and reading, parsing or
  validating it fails, \<open>parseStats\<close> is the full computation: it scans all sessions, parses
  their details and builds the aggregate from scratch. It throws nothing, and whenever the
  scan itself succeeds it returns an aggregate, dated by the clock's reading at that moment
  and counting every scanned session.
\<close>

theorem unobtainable_snapshot_falls_back_to_full_computation:
  assumes "snapshotUnobtainable w ms"
  shows "parseStats w ms
           = (computeStatsFromSessions (scanned w) (parseDetail w) (hourKey w) (clock w), ms)
       \<and> (\<forall>sessions. scanned w = Inr sessions \<longrightarrow>
            (\<exists>r. fst (parseStats w ms) = Some r
                 \<and> lastComputedDate r = nowComputed (clock w)
                 \<and> totalSessions r = int (length sessions)))"
proof -
  have eq: "parseStats w ms
           = (computeStatsFromSessions (scanned w) (parseDetail w) (hourKey w) (clock w), ms)"
    using assms
    by (auto simp: snapshotUnobtainable_def parseStats_def split: option.splits sum.splits)
  show ?thesis
  proof (intro conjI allI impI)
    show "parseStats w ms
           = (computeStatsFromSessions (scanned w) (parseDetail w) (hourKey w) (clock w), ms)"
      by (rule eq)
  next
    fix sessions assume sc: "scanned w = Inr sessions"
    obtain r where r: "computeStatsFromSessions (Inr sessions) (parseDetail w) (hourKey w) (clock w) = Some r"
      using computeStats_Inr_ex by blast
    from computeStats_Inr[OF r] r sc eq
    show "\<exists>r. fst (parseStats w ms) = Some r
                 \<and> lastComputedDate r = nowComputed (clock w)
                 \<and> totalSessions r = int (length sessions)"
      by simp
  qed
qed

theorem unobtainable_snapshot_falls_back_to_full_computation_witness:
  "snapshotUnobtainable exWorldInvalid exColdState
   \<and> readAndValidate exWorldInvalid = Inl ParseError
   \<and> scanned exWorldInvalid = Inr [exSession]
   \<and> parseStats exWorldInvalid exColdState = (Some exComputed, exColdState)
   \<and> lastComputedDate exComputed = nowComputed (clock exWorldInvalid)"
proof -
  have h: "snapshotUnobtainable exWorldInvalid exColdState"
    by (simp add: snapshotUnobtainable_def exWorldInvalid_def exColdState_def exNoDiskCache_def)
  have c: "computeStatsFromSessions (scanned exWorldInvalid) (parseDetail exWorldInvalid)
             (hourKey exWorldInvalid) (clock exWorldInvalid) = Some exComputed"
    using ex_compute by (simp add: exWorldInvalid_def)
  have d: "lastComputedDate exComputed = nowComputed (clock exWorldInvalid)"
    by (simp add: exComputed_def exWorldInvalid_def exClock_def)
  have r: "readAndValidate exWorldInvalid = Inl ParseError"
    "scanned exWorldInvalid = Inr [exSession]"
    by (simp_all add: exWorldInvalid_def)
  show ?thesis
    using unobtainable_snapshot_falls_back_to_full_computation[OF h] h c d r
    by simp
qed

text \<open>
  C5. When the snapshot is stale, the merge cache does not answer and the session scan
  throws, the merge throws and \<open>maybeEnrichWithRecentSessions\<close> returns the snapshot it was
  given, with the module state as it was. So \<open>parseStats\<close>, whichever tier gave it the
  snapshot, returns that snapshot unenriched, and the merge cache is left untouched.
\<close>

theorem enrichment_failure_returns_snapshot:
  assumes "\<not> getTodayDateString w \<le> extractDateString (lastComputedDate stats)"
    and "\<not> mergedCacheFresh w ms mtime"
    and "scanned w = Inl e"
  shows "mergeRecentSessions (scanned w) (parseDetail w) (hourKey w) stats = Inl e
       \<and> maybeEnrichWithRecentSessions w ms stats mtime = (stats, ms)
       \<and> (statMtimeMs w = Some mtime \<and> obtainedSnapshot w ms = Some stats \<longrightarrow>
            fst (parseStats w ms) = Some stats
            \<and> mergedCache (snd (parseStats w ms)) = mergedCache ms)"
proof (intro conjI impI)
  show "mergeRecentSessions (scanned w) (parseDetail w) (hourKey w) stats = Inl e"
    using assms(3) by (simp add: mergeRecentSessions_def)
next
  show "maybeEnrichWithRecentSessions w ms stats mtime = (stats, ms)"
    using assms by (rule maybeEnrich_scan_fails)
next
  assume a: "statMtimeMs w = Some mtime \<and> obtainedSnapshot w ms = Some stats"
  then obtain ms1 where m: "mergedCache ms1 = mergedCache ms"
    and p: "parseStats w ms =
               (Some (fst (maybeEnrichWithRecentSessions w ms1 stats mtime)),
                snd (maybeEnrichWithRecentSessions w ms1 stats mtime))"
    using parseStats_obtained by blast
  have "\<not> mergedCacheFresh w ms1 mtime"
    using assms(2) mergedCacheFresh_cong[OF m] by simp
  from maybeEnrich_scan_fails[OF assms(1) this assms(3)] p m
  show "fst (parseStats w ms) = Some stats"
    and "mergedCache (snd (parseStats w ms)) = mergedCache ms"
    by simp_all
qed

theorem enrichment_failure_returns_snapshot_witness:
  "scanned exWorldScanFails = Inl ScanError
   \<and> getTodayDateString exWorldScanFails = ''2026-01-03''
   \<and> extractDateString (lastComputedDate exSnapshot) = ''2026-01-01''
   \<and> obtainedSnapshot exWorldScanFails exColdState = Some exSnapshot
   \<and> maybeEnrichWithRecentSessions exWorldScanFails exColdState exSnapshot 42
        = (exSnapshot, exColdState)
   \<and> fst (parseStats exWorldScanFails exColdState) = Some exSnapshot
   \<and> mergedCache (snd (parseStats exWorldScanFails exColdState)) = None"
proof -
  have t: "getTodayDateString exWorldScanFails = ''2026-01-03''"
    by (simp add: getTodayDateString_def exWorldScanFails_def extractDateString_def)
  have h1: "\<not> getTodayDateString exWorldScanFails \<le> extractDateString (lastComputedDate exSnapshot)"
    by (simp add: t ex_cutoff)
  have h2: "\<not> mergedCacheFresh exWorldScanFails exColdState 42"
    by (simp add: mergedCacheFresh_def exColdState_def)
  have h3: "scanned exWorldScanFails = Inl ScanError"
    by (simp add: exWorldScanFails_def)
  have o: "statMtimeMs exWorldScanFails = Some 42"
    "obtainedSnapshot exWorldScanFails exColdState = Some exSnapshot"
    by (simp_all add: obtainedSnapshot_def exWorldScanFails_def exColdState_def exNoDiskCache_def)
  have m: "mergedCache exColdState = None" by (simp add: exColdState_def)
  show ?thesis
    using enrichment_failure_returns_snapshot[OF h1 h2 h3] t o m h3
    by (simp add: ex_cutoff)
qed

section \<open>The scanner\<close>

lemma mset_insertJS: "mset (insertJS cmp x ys) = add_mset x (mset ys)"
  by (induction ys) simp_all

lemma mset_sortJS: "mset (sortJS cmp xs) = mset xs"
  by (induction xs) (simp_all add: sortJS_def mset_insertJS)

lemma set_sortJS: "set (sortJS cmp xs) = set xs"
  using mset_sortJS[of cmp xs] by (metis set_mset_mset)

lemma sortJS_Cons: "sortJS cmp (x # xs) = insertJS cmp x (sortJS cmp xs)"
  by (simp add: sortJS_def)

lemma notOlder_times:
  "lastActiveTime w a = Some ta \<Longrightarrow> lastActiveTime w b = Some tb \<Longrightarrow>
   notOlder w a b = (tb \<le> ta) \<and> newestFirst w a b = tb - ta"
  by (simp add: notOlder_def newestFirst_def)

lemma insertJS_newestFirst_sorted:
  assumes "\<forall>z\<in>set (x # ys). lastActiveTime w z \<noteq> None"
    and "sorted_wrt (notOlder w) ys"
  shows "sorted_wrt (notOlder w) (insertJS (newestFirst w) x ys)"
  using assms
proof (induction ys)
  case Nil
  then show ?case by simp
next
  case (Cons y ys)
  from Cons.prems(1) obtain tx ty where tx: "lastActiveTime w x = Some tx"
    and ty: "lastActiveTime w y = Some ty" by auto
  show ?case
  proof (cases "0 < newestFirst w x y")
    case True
    with notOlder_times[OF tx ty] have lt: "tx < ty" by simp
    have ih: "sorted_wrt (notOlder w) (insertJS (newestFirst w) x ys)"
      using Cons by simp
    have "\<forall>z\<in>set (insertJS (newestFirst w) x ys). notOlder w y z"
    proof
      fix z assume "z \<in> set (insertJS (newestFirst w) x ys)"
      then have "z = x \<or> z \<in> set ys"
        using mset_insertJS[of "newestFirst w" x ys] by (metis set_mset_add_mset_insert set_mset_mset insert_iff)
      then show "notOlder w y z"
      proof
        assume "z = x"
        with notOlder_times[OF ty tx] lt show ?thesis by simp
      next
        assume "z \<in> set ys"
        with Cons.prems(2) show ?thesis by simp
      qed
    qed
    with ih True show ?thesis by simp
  next
    case False
    with notOlder_times[OF tx ty] have le: "ty \<le> tx" by simp
    have "\<forall>z\<in>set (y # ys). notOlder w x z"
    proof
      fix z assume z: "z \<in> set (y # ys)"
      with Cons.prems(1) obtain tz where tz: "lastActiveTime w z = Some tz" by auto
      have "notOlder w y z \<or> z = y" using z Cons.prems(2) by auto
      then have "tz \<le> ty" using notOlder_times[OF ty tz] ty tz by auto
      with le notOlder_times[OF tx tz] show "notOlder w x z" by simp
    qed
    with False Cons.prems(2) show ?thesis by simp
  qed
qed

lemma sortJS_newestFirst_sorted:
  "\<forall>z\<in>set xs. lastActiveTime w z \<noteq> None \<Longrightarrow> sorted_wrt (notOlder w) (sortJS (newestFirst w) xs)"
proof (induction xs)
  case Nil
  then show ?case by (simp add: sortJS_def)
next
  case (Cons x xs)
  then have "sorted_wrt (notOlder w) (sortJS (newestFirst w) xs)" by simp
  moreover have "\<forall>z\<in>set (x # sortJS (newestFirst w) xs). lastActiveTime w z \<noteq> None"
    using Cons.prems by (simp add: set_sortJS)
  ultimately show ?case
    unfolding sortJS_Cons by (rule insertJS_newestFirst_sorted[rotated])
qed

lemma fst_scanSessionsInternal:
  "fst (scanSessionsInternal w cache) = sortJS (newestFirst w) (summaries (scannedState w cache))"
  by (simp add: scanSessionsInternal_def Let_def)

text \<open>
  C7. Whatever the order in which the projects and their files were listed, the array a
  scan returns holds exactly the summaries the loops collected, and (their last-active
  timestamps being dates) it is in descending order of last-active time.
\<close>

theorem scan_result_sorted_newest_first:
  assumes "\<forall>s\<in>set (summaries (scannedState w cache)). lastActiveTime w s \<noteq> None"
  shows "sorted_wrt (notOlder w) (fst (scanSessionsInternal w cache))
       \<and> mset (fst (scanSessionsInternal w cache)) = mset (summaries (scannedState w cache))"
  using sortJS_newestFirst_sorted[OF assms]
  by (simp add: fst_scanSessionsInternal mset_sortJS)

lemma ex_scanFile_s0_cold:
  "scanFile exScanWorld exProject ''s0.jsonl''
     \<lparr>summaries = [], summaryCache = [], parseCalls = []\<rparr>
   = \<lparr>summaries = [exOldActive],
      summaryCache = [(''s0'', \<lparr>ceMtimeMs = 100, ceSummary = SessionSummary.truncate exOldActive\<rparr>)],
      parseCalls = [''/home/u/.claude/projects/-work-p/s0.jsonl'']\<rparr>"
  by (simp add: scanFile_def sessionFilePath_def Let_def exScanWorld_def exProject_def exPathJoin_def
      exExtractSessionId_def exStatFile_def exParseSummary_def exIsSessionActive_def
      withPath_def exOldActive_def exOldSession_def SessionSummary.truncate_def
      SessionSummary.extend_def)

lemma ex_scanFile_s1_cold:
  "scanFile exScanWorld exProject ''s1.jsonl''
     \<lparr>summaries = [exOldActive],
      summaryCache = [(''s0'', \<lparr>ceMtimeMs = 100, ceSummary = SessionSummary.truncate exOldActive\<rparr>)],
      parseCalls = [''/home/u/.claude/projects/-work-p/s0.jsonl'']\<rparr>
   = \<lparr>summaries = [exOldActive, exNewActive], summaryCache = exCache,
      parseCalls = [''/home/u/.claude/projects/-work-p/s0.jsonl'',
                    ''/home/u/.claude/projects/-work-p/s1.jsonl'']\<rparr>"
  by (simp add: scanFile_def sessionFilePath_def Let_def exScanWorld_def exProject_def exPathJoin_def
      exExtractSessionId_def exStatFile_def exParseSummary_def exIsSessionActive_def
      withPath_def exNewActive_def exSession_def SessionSummary.truncate_def
      SessionSummary.extend_def exCache_def)

lemma ex_scannedState_cold:
  "scannedState exScanWorld []
   = \<lparr>summaries = [exOldActive, exNewActive], summaryCache = exCache,
      parseCalls = [''/home/u/.claude/projects/-work-p/s0.jsonl'',
                    ''/home/u/.claude/projects/-work-p/s1.jsonl'']\<rparr>"
proof -
  have "scannedState exScanWorld []
      = scanFile exScanWorld exProject ''s1.jsonl''
          (scanFile exScanWorld exProject ''s0.jsonl''
             \<lparr>summaries = [], summaryCache = [], parseCalls = []\<rparr>)"
    by (simp add: scannedState_def scanProject_def exScanWorld_def exProject_def)
  then show ?thesis by (simp only: ex_scanFile_s0_cold ex_scanFile_s1_cold)
qed

lemma ex_times:
  "lastActiveTime exScanWorld exOldActive = Some 1767254401000"
  "lastActiveTime exScanWorld exNewActive = Some 1767348000000"
  by (simp_all add: lastActiveTime_def exScanWorld_def exGetTime_def exOldActive_def
      exOldSession_def exNewActive_def exSession_def)

lemma ex_sorted:
  "sortJS (newestFirst exScanWorld) [exOldActive, exNewActive] = [exNewActive, exOldActive]"
  by (simp add: sortJS_def newestFirst_def ex_times)

theorem scan_result_sorted_newest_first_witness:
  "summaries (scannedState exScanWorld []) = [exOldActive, exNewActive]
   \<and> lastActiveTime exScanWorld exOldActive = Some 1767254401000
   \<and> lastActiveTime exScanWorld exNewActive = Some 1767348000000
   \<and> fst (scanSessionsInternal exScanWorld []) = [exNewActive, exOldActive]
   \<and> sorted_wrt (notOlder exScanWorld) [exNewActive, exOldActive]"
proof -
  have h: "\<forall>s\<in>set (summaries (scannedState exScanWorld [])). lastActiveTime exScanWorld s \<noteq> None"
    by (simp add: ex_scannedState_cold ex_times)
  have r: "fst (scanSessionsInternal exScanWorld []) = [exNewActive, exOldActive]"
    by (simp add: fst_scanSessionsInternal ex_scannedState_cold ex_sorted)
  show ?thesis
    using scan_result_sorted_newest_first[OF h] r
    by (simp add: ex_scannedState_cold ex_times)
qed

lemma ex_twin_world:
  "sessionFilePath exTwinWorld exProjectP ''s1.jsonl'' = ''/home/u/.claude/projects/-work-p/s1.jsonl''"
  "sessionFilePath exTwinWorld exProjectQ ''s1.jsonl'' = ''/home/u/.claude/projects/-work-q/s1.jsonl''"
  "extractSessionId exTwinWorld ''s1.jsonl'' = ''s1''"
  "statFile exTwinWorld = exTwinStatFile"
  "parseSummary exTwinWorld = exTwinParseSummary"
  "isSessionActive exTwinWorld = (\<lambda>dir sid. False)"
  by (simp_all add: sessionFilePath_def exTwinWorld_def exProjectP_def exProjectQ_def
      exPathJoin_def exExtractSessionId_def)

lemma ex_twin_withPath:
  "withPath ((SessionSummary.truncate exSession)\<lparr>isActive := False\<rparr>)
     ''/home/u/.claude/projects/-work-p/s1.jsonl'' = exSession"
  "withPath ((SessionSummary.truncate exTwinSession)\<lparr>isActive := False\<rparr>)
     ''/home/u/.claude/projects/-work-q/s1.jsonl'' = exTwinSession"
  "(SessionSummary.truncate exSession)\<lparr>isActive := False\<rparr> = SessionSummary.truncate exSession"
  "(SessionSummary.truncate exTwinSession)\<lparr>isActive := False\<rparr>
     = SessionSummary.truncate exTwinSession"
  "withPath (SessionSummary.truncate exSession)
     ''/home/u/.claude/projects/-work-p/s1.jsonl'' = exSession"
  "withPath (SessionSummary.truncate exTwinSession)
     ''/home/u/.claude/projects/-work-q/s1.jsonl'' = exTwinSession"
  by (simp_all add: withPath_def exSession_def exTwinSession_def SessionSummary.truncate_def
      SessionSummary.extend_def)

text \<open>The file of \<open>p\<close> is parsed whenever the cache holds no entry of its time under \<open>s1\<close>.\<close>

lemma ex_twin_scan_p:
  assumes "\<forall>c. map_of cache ''s1'' = Some c \<longrightarrow> ceMtimeMs c \<noteq> 200"
  shows "scanFile exTwinWorld exProjectP ''s1.jsonl''
     \<lparr>summaries = [], summaryCache = cache, parseCalls = []\<rparr>
   = \<lparr>summaries = [exSession],
      summaryCache = AList.update ''s1''
        \<lparr>ceMtimeMs = 200, ceSummary = SessionSummary.truncate exSession\<rparr> cache,
      parseCalls = [''/home/u/.claude/projects/-work-p/s1.jsonl'']\<rparr>"
proof (cases "map_of cache ''s1''")
  case None
  then show ?thesis
    by (simp add: scanFile_def Let_def ex_twin_world exTwinStatFile_def
        exTwinParseSummary_def ex_twin_withPath)
next
  case (Some c)
  with assms have "ceMtimeMs c \<noteq> 200" by simp
  with Some show ?thesis
    by (simp add: scanFile_def Let_def ex_twin_world exTwinStatFile_def
        exTwinParseSummary_def ex_twin_withPath)
qed

lemma ex_twin_scan_q:
  "scanFile exTwinWorld exProjectQ ''s1.jsonl''
     \<lparr>summaries = [exSession],
      summaryCache = AList.update ''s1''
        \<lparr>ceMtimeMs = 200, ceSummary = SessionSummary.truncate exSession\<rparr> cache,
      parseCalls = [''/home/u/.claude/projects/-work-p/s1.jsonl'']\<rparr>
   = \<lparr>summaries = [exSession, exTwinSession],
      summaryCache = AList.update ''s1''
        \<lparr>ceMtimeMs = 300, ceSummary = SessionSummary.truncate exTwinSession\<rparr> cache,
      parseCalls = [''/home/u/.claude/projects/-work-p/s1.jsonl'',
                    ''/home/u/.claude/projects/-work-q/s1.jsonl'']\<rparr>"
  by (simp add: scanFile_def Let_def ex_twin_world exTwinStatFile_def update_conv'
      exTwinParseSummary_def ex_twin_withPath)

lemma ex_twin_scanned:
  assumes "\<forall>c. map_of cache ''s1'' = Some c \<longrightarrow> ceMtimeMs c \<noteq> 200"
  shows "scannedState exTwinWorld cache
   = \<lparr>summaries = [exSession, exTwinSession],
      summaryCache = AList.update ''s1''
        \<lparr>ceMtimeMs = 300, ceSummary = SessionSummary.truncate exTwinSession\<rparr> cache,
      parseCalls = [''/home/u/.claude/projects/-work-p/s1.jsonl'',
                    ''/home/u/.claude/projects/-work-q/s1.jsonl'']\<rparr>"
proof -
  have "scannedState exTwinWorld cache
      = scanFile exTwinWorld exProjectQ ''s1.jsonl''
          (scanFile exTwinWorld exProjectP ''s1.jsonl''
             \<lparr>summaries = [], summaryCache = cache, parseCalls = []\<rparr>)"
    by (simp add: scannedState_def scanProject_def exTwinWorld_def exProjectP_def exProjectQ_def)
  then show ?thesis
    by (simp add: ex_twin_scan_p[OF assms] ex_twin_scan_q)
qed

lemma ex_twin_sorted:
  "sortJS (newestFirst exTwinWorld) [exSession, exTwinSession] = [exSession, exTwinSession]"
  by (simp add: sortJS_def newestFirst_def lastActiveTime_def exTwinWorld_def exTwinGetTime_def
      exSession_def exTwinSession_def)

lemma ex_twin_same_world:
  "sessionFilePath exTwinWorldSame exProjectP ''s1.jsonl''
     = ''/home/u/.claude/projects/-work-p/s1.jsonl''"
  "sessionFilePath exTwinWorldSame exProjectQ ''s1.jsonl''
     = ''/home/u/.claude/projects/-work-q/s1.jsonl''"
  "extractSessionId exTwinWorldSame ''s1.jsonl'' = ''s1''"
  "statFile exTwinWorldSame = exTwinStatFileSame"
  "parseSummary exTwinWorldSame = exTwinParseSummary"
  "isSessionActive exTwinWorldSame = (\<lambda>dir sid. False)"
  by (simp_all add: sessionFilePath_def exTwinWorldSame_def exTwinWorld_def exProjectP_def
      exProjectQ_def exPathJoin_def exExtractSessionId_def)

lemma ex_twin_same_scanned:
  "scannedState exTwinWorldSame []
   = \<lparr>summaries = [exSession,
                     exSession\<lparr>filePath := ''/home/u/.claude/projects/-work-q/s1.jsonl''\<rparr>],
      summaryCache = [(''s1'', \<lparr>ceMtimeMs = 200, ceSummary = SessionSummary.truncate exSession\<rparr>)],
      parseCalls = [''/home/u/.claude/projects/-work-p/s1.jsonl'']\<rparr>"
proof -
  have u: "scannedState exTwinWorldSame []
      = scanFile exTwinWorldSame exProjectQ ''s1.jsonl''
          (scanFile exTwinWorldSame exProjectP ''s1.jsonl''
             \<lparr>summaries = [], summaryCache = [], parseCalls = []\<rparr>)"
    by (simp add: scannedState_def scanProject_def exTwinWorldSame_def exTwinWorld_def
        exProjectP_def exProjectQ_def)
  have p: "scanFile exTwinWorldSame exProjectP ''s1.jsonl''
             \<lparr>summaries = [], summaryCache = [], parseCalls = []\<rparr>
      = \<lparr>summaries = [exSession],
         summaryCache = [(''s1'', \<lparr>ceMtimeMs = 200, ceSummary = SessionSummary.truncate exSession\<rparr>)],
         parseCalls = [''/home/u/.claude/projects/-work-p/s1.jsonl'']\<rparr>"
    by (simp add: scanFile_def Let_def ex_twin_same_world exTwinStatFileSame_def
        exTwinParseSummary_def ex_twin_withPath)
  have w: "withPath ((SessionSummary.truncate exSession)\<lparr>isActive := False\<rparr>)
             ''/home/u/.claude/projects/-work-q/s1.jsonl''
      = exSession\<lparr>filePath := ''/home/u/.claude/projects/-work-q/s1.jsonl''\<rparr>"
    by (simp add: withPath_def exSession_def SessionSummary.truncate_def
        SessionSummary.extend_def)
  show ?thesis
    unfolding u p
    by (simp add: scanFile_def Let_def ex_twin_same_world exTwinStatFileSame_def w)
qed

lemma ex_twin_same_sorted:
  "sortJS (newestFirst exTwinWorldSame)
     [exSession, exSession\<lparr>filePath := ''/home/u/.claude/projects/-work-q/s1.jsonl''\<rparr>]
   = [exSession, exSession\<lparr>filePath := ''/home/u/.claude/projects/-work-q/s1.jsonl''\<rparr>]"
  by (simp add: sortJS_def newestFirst_def lastActiveTime_def exTwinWorldSame_def exTwinWorld_def
      exTwinGetTime_def exSession_def)

text \<open>
  C8 fails on the code when two project directories hold a session file of the same name.
  Both files are \<open>s1.jsonl\<close>, modified at 200 and at 300, and nothing changes between the
  two scans. The first scan parses both and leaves one cache entry under \<open>s1\<close>, that of
  the file scanned last. The second scan, started from that cache, finds under \<open>s1\<close> an
  entry of another time for the first file and parses it, overwrites the entry, and so
  parses the second file too: both unchanged files are read again, on this and on every
  later scan. When the two files were modified at the same time, the entry of the first
  answers for the second, which is never parsed: its summary in the result is that of the
  other project, under its own path.
\<close>

theorem shared_session_id_reparses_unchanged_files:
  "statFile exTwinWorld ''/home/u/.claude/projects/-work-p/s1.jsonl''
     = Some \<lparr>mtimeMs = 200, fsSize = 90\<rparr>
   \<and> statFile exTwinWorld ''/home/u/.claude/projects/-work-q/s1.jsonl''
     = Some \<lparr>mtimeMs = 300, fsSize = 80\<rparr>
   \<and> scanSessionsInternal exTwinWorld []
     = ([exSession, exTwinSession], exTwinCache,
        [''/home/u/.claude/projects/-work-p/s1.jsonl'',
         ''/home/u/.claude/projects/-work-q/s1.jsonl''])
   \<and> scanSessionsInternal exTwinWorld exTwinCache
     = ([exSession, exTwinSession], exTwinCache,
        [''/home/u/.claude/projects/-work-p/s1.jsonl'',
         ''/home/u/.claude/projects/-work-q/s1.jsonl''])
   \<and> scanSessionsInternal exTwinWorldSame []
     = ([exSession, exSession\<lparr>filePath := ''/home/u/.claude/projects/-work-q/s1.jsonl''\<rparr>],
        [(''s1'', \<lparr>ceMtimeMs = 200, ceSummary = SessionSummary.truncate exSession\<rparr>)],
        [''/home/u/.claude/projects/-work-p/s1.jsonl''])
   \<and> projectPath exSession = ''/work/p'' \<and> projectPath exTwinSession = ''/work/q''"
proof -
  have cold: "\<forall>c. map_of [] ''s1'' = Some c \<longrightarrow> ceMtimeMs c \<noteq> 200" by simp
  have warm: "\<forall>c. map_of exTwinCache ''s1'' = Some c \<longrightarrow> ceMtimeMs c \<noteq> 200"
    by (simp add: exTwinCache_def)
  show ?thesis
    by (simp add: scanSessionsInternal_def Let_def ex_twin_scanned[OF cold]
        ex_twin_scanned[OF warm] ex_twin_sorted ex_twin_same_scanned ex_twin_same_sorted)
       (simp add: exTwinCache_def ex_twin_world exTwinStatFile_def exSession_def
        exTwinSession_def)
qed

lemma filePath_withPath [simp]: "filePath (withPath summary fp) = fp"
  by (simp add: withPath_def SessionSummary.extend_def)

lemma truncate_withPath [simp]: "SessionSummary.truncate (withPath summary fp) = summary"
  by (simp add: withPath_def SessionSummary.extend_def SessionSummary.truncate_def)

lemma scanFile_paths:
  "r \<in> set (summaries (scanFile w project file st)) \<Longrightarrow>
   r \<in> set (summaries st) \<or> filePath r = sessionFilePath w project file"
  by (auto simp: scanFile_def Let_def split: option.splits if_splits)

lemma scanProject_paths_aux:
  "r \<in> set (summaries (fold (scanFile w project) files st)) \<Longrightarrow>
   r \<in> set (summaries st) \<or> (\<exists>file\<in>set files. filePath r = sessionFilePath w project file)"
proof (induction files arbitrary: st)
  case Nil
  then show ?case by simp
next
  case (Cons f files)
  from Cons.prems have "r \<in> set (summaries (fold (scanFile w project) files (scanFile w project f st)))"
    by simp
  from Cons.IH[OF this] show ?case
  proof
    assume "r \<in> set (summaries (scanFile w project f st))"
    from scanFile_paths[OF this] show ?thesis by auto
  next
    assume "\<exists>file\<in>set files. filePath r = sessionFilePath w project file"
    then show ?thesis by auto
  qed
qed

lemma scanProjects_paths_aux:
  "r \<in> set (summaries (fold (scanProject w) projects st)) \<Longrightarrow>
   r \<in> set (summaries st)
   \<or> (\<exists>project\<in>set projects. \<exists>file\<in>set (sessionFiles project).
         filePath r = sessionFilePath w project file)"
proof (induction projects arbitrary: st)
  case Nil
  then show ?case by simp
next
  case (Cons p projects)
  from Cons.prems have "r \<in> set (summaries (fold (scanProject w) projects (scanProject w p st)))"
    by simp
  from Cons.IH[OF this] show ?case
  proof
    assume "r \<in> set (summaries (scanProject w p st))"
    then have "r \<in> set (summaries st)
        \<or> (\<exists>file\<in>set (sessionFiles p). filePath r = sessionFilePath w p file)"
      unfolding scanProject_def by (rule scanProject_paths_aux)
    then show ?thesis by auto
  next
    assume "\<exists>project\<in>set projects. \<exists>file\<in>set (sessionFiles project).
         filePath r = sessionFilePath w project file"
    then show ?thesis by auto
  qed
qed

lemma scannedState_paths:
  "r \<in> set (summaries (scannedState w cache)) \<Longrightarrow>
   \<exists>project\<in>set (scanProjects w). \<exists>file\<in>set (sessionFiles project).
      filePath r = sessionFilePath w project file"
  unfolding scannedState_def
  by (drule scanProjects_paths_aux) simp

text \<open>
  C9. The form that leaves the layer (\<open>scanAllSessions\<close>, and \<open>getActiveSessions\<close> which
  filters it) returns the records of the internal form, in the same order, cut down to the
  fields of \<open>SessionSummary\<close>: they carry no field beyond those, so no \<open>filePath\<close>. The
  internal form (\<open>scanAllSessionsWithPaths\<close>) keeps, on every record, the path of the
  session file it was read from. Both leave the same cache.
\<close>

theorem external_scan_strips_file_path:
  "fst (scanAllSessions w cache)
     = map SessionSummary.truncate (fst (scanAllSessionsWithPaths w cache))
   \<and> snd (scanAllSessions w cache) = snd (scanAllSessionsWithPaths w cache)
   \<and> fst (getActiveSessions w cache) = filter isActive (fst (scanAllSessions w cache))
   \<and> (\<forall>r\<in>set (fst (scanAllSessions w cache)). SessionSummary.more r = ())
   \<and> (\<forall>r\<in>set (fst (scanAllSessionsWithPaths w cache)).
         \<exists>project\<in>set (scanProjects w). \<exists>file\<in>set (sessionFiles project).
            filePath r = sessionFilePath w project file)"
proof (intro conjI ballI)
  show "fst (scanAllSessions w cache)
     = map SessionSummary.truncate (fst (scanAllSessionsWithPaths w cache))"
    by (simp add: scanAllSessions_def scanAllSessionsWithPaths_def split_beta)
  show "snd (scanAllSessions w cache) = snd (scanAllSessionsWithPaths w cache)"
    by (simp add: scanAllSessions_def scanAllSessionsWithPaths_def split_beta)
  show "fst (getActiveSessions w cache) = filter isActive (fst (scanAllSessions w cache))"
    by (simp add: getActiveSessions_def split_beta)
next
  fix r :: SessionSummary
  show "SessionSummary.more r = ()" by simp
next
  fix r assume "r \<in> set (fst (scanAllSessionsWithPaths w cache))"
  then have "r \<in> set (summaries (scannedState w cache))"
    by (simp add: scanAllSessionsWithPaths_def fst_scanSessionsInternal set_sortJS)
  then show "\<exists>project\<in>set (scanProjects w). \<exists>file\<in>set (sessionFiles project).
            filePath r = sessionFilePath w project file"
    by (rule scannedState_paths)
qed

theorem external_scan_strips_file_path_witness:
  "fst (scanAllSessionsWithPaths exScanWorld []) = [exNewActive, exOldActive]
   \<and> map filePath (fst (scanAllSessionsWithPaths exScanWorld []))
       = [''/home/u/.claude/projects/-work-p/s1.jsonl'',
          ''/home/u/.claude/projects/-work-p/s0.jsonl'']
   \<and> fst (scanAllSessions exScanWorld [])
       = [SessionSummary.truncate exNewActive, SessionSummary.truncate exOldActive]
   \<and> fst (getActiveSessions exScanWorld []) = [SessionSummary.truncate exNewActive]"
proof -
  have r: "fst (scanAllSessionsWithPaths exScanWorld []) = [exNewActive, exOldActive]"
    by (simp add: scanAllSessionsWithPaths_def fst_scanSessionsInternal ex_scannedState_cold
        ex_sorted)
  have p: "filePath exNewActive = ''/home/u/.claude/projects/-work-p/s1.jsonl''"
    "filePath exOldActive = ''/home/u/.claude/projects/-work-p/s0.jsonl''"
    by (simp_all add: exNewActive_def exSession_def exOldActive_def exOldSession_def)
  have a: "isActive (SessionSummary.truncate exNewActive)"
    "\<not> isActive (SessionSummary.truncate exOldActive)"
    by (simp_all add: exNewActive_def exSession_def exOldActive_def exOldSession_def
        SessionSummary.truncate_def)
  show ?thesis
    using external_scan_strips_file_path[of exScanWorld "[]"] r p a
    by simp
qed

section \<open>The daily token entries of the result\<close>

text \<open>What one iteration of the loop adds to the token entry of a date and a model.\<close>

lemma addDayTokens_entry:
  assumes "distinct (map fst tbm)"
  shows "getOr (addDayTokens tbm dt) model 0
         = getOr dt model 0
           + (case map_of tbm model of
                Some usage \<Rightarrow> inputTokens usage + outputTokens usage | None \<Rightarrow> 0)"
proof (cases "map_of tbm model")
  case None
  then have "model \<notin> fst ` set tbm" by (simp add: map_of_eq_None_iff)
  from addDayTokens_notin[OF this] None show ?thesis by simp
next
  case (Some usage)
  from addDayTokens_distinct[OF assms Some] Some show ?thesis by simp
qed

lemma sessionStep_entry:
  assumes "\<forall>d. detailMap (sessionId s) = Some d \<longrightarrow> distinct (map fst (tokensByModel d))"
  shows "dayTokensOf (modelTokensMap (sessionStep detailMap hk s st)) date model
         = dayTokensOf (modelTokensMap st) date model
           + (if sessionDate s = date
              then (case detailMap (sessionId s) of
                      Some d \<Rightarrow>
                        (case map_of (tokensByModel d) model of
                           Some usage \<Rightarrow> inputTokens usage + outputTokens usage | None \<Rightarrow> 0)
                    | None \<Rightarrow> 0)
              else 0)"
proof (cases "detailMap (sessionId s)")
  case None
  then show ?thesis
    by (simp add: sessionStep_tokens_None dayTokensOf_add_empty)
next
  case (Some d)
  with assms have "distinct (map fst (tokensByModel d))" by simp
  from addDayTokens_entry[OF this] Some show ?thesis
    by (simp add: sessionStep_tokens_Some dayTokensOf_def getOr_update)
qed

lemma fold_sessionStep_entry:
  assumes "\<forall>s\<in>set xs. \<forall>d. detailMap (sessionId s) = Some d \<longrightarrow> distinct (map fst (tokensByModel d))"
  shows "dayTokensOf (modelTokensMap (fold (sessionStep detailMap hk) xs st)) date model
         = dayTokensOf (modelTokensMap st) date model
           + (\<Sum>s\<leftarrow>xs. if sessionDate s = date
                        then (case detailMap (sessionId s) of
                                Some d \<Rightarrow>
                                  (case map_of (tokensByModel d) model of
                                     Some usage \<Rightarrow> inputTokens usage + outputTokens usage
                                   | None \<Rightarrow> 0)
                              | None \<Rightarrow> 0)
                        else 0)"
  using assms
proof (induction xs arbitrary: st)
  case Nil
  then show ?case by simp
next
  case (Cons x xs)
  have x: "\<forall>d. detailMap (sessionId x) = Some d \<longrightarrow> distinct (map fst (tokensByModel d))"
    using Cons.prems by simp
  have xs: "\<forall>s\<in>set xs. \<forall>d. detailMap (sessionId s) = Some d \<longrightarrow> distinct (map fst (tokensByModel d))"
    using Cons.prems by simp
  show ?case
    using Cons.IH[OF xs, of "sessionStep detailMap hk x st"]
      sessionStep_entry[where detailMap=detailMap and s=x and hk=hk and st=st
        and date=date and model=model] x
    by simp
qed

text \<open>With pairwise distinct session ids, the detail map holds each session's own parse.\<close>

lemma parseDetailsInBatches_own:
  assumes "distinct (map sessionId xs)" and "s \<in> set xs"
  shows "parseDetailsInBatches pd xs (sessionId s) = pd s"
proof -
  have inj: "inj_on sessionId (set xs)" using assms(1) by (simp add: distinct_map)
  have u: "\<forall>t\<in>set xs. sessionId t = sessionId s \<longrightarrow> t = s"
    using inj assms(2) by (auto dest: inj_onD)
  show ?thesis
  proof (cases "pd s")
    case None
    with u have "\<forall>t\<in>set xs. sessionId t = sessionId s \<longrightarrow> pd t = None" by auto
    from parseDetailsInBatches_none[OF this] None show ?thesis by simp
  next
    case (Some d)
    from parseDetailsInBatches_unique[where s=s and xs=xs and pd=pd and d=d] assms(2) u Some
    show ?thesis by simp
  qed
qed

text \<open>Reading the array rebuilt from a map of distinct dates is reading the map.\<close>

lemma map_of_fold_update:
  assumes "distinct (map k es)"
  shows "map_of (fold (\<lambda>e m. AList.update (k e) (v e) m) es acc) x
         = (case map_of (map (\<lambda>e. (k e, v e)) es) x of
              Some y \<Rightarrow> Some y | None \<Rightarrow> map_of acc x)"
  using assms
proof (induction es arbitrary: acc)
  case Nil
  then show ?case by simp
next
  case (Cons e es)
  then have notin: "k e \<notin> k ` set es" and d: "distinct (map k es)" by auto
  have none: "map_of (map (\<lambda>e. (k e, v e)) es) (k e) = None"
    using notin by (simp add: map_of_eq_None_iff image_image)
  show ?case
  proof (cases "x = k e")
    case True
    with Cons.IH[OF d, of "AList.update (k e) (v e) acc"] none show ?thesis
      by (simp add: update_conv')
  next
    case False
    with Cons.IH[OF d, of "AList.update (k e) (v e) acc"] show ?thesis
      by (simp add: update_conv' split: option.splits)
  qed
qed

lemma distinct_fold_update:
  "distinct (map fst acc) \<Longrightarrow>
   distinct (map fst (fold (\<lambda>e m. AList.update (k e) (v e) m) es acc))"
  by (induction es arbitrary: acc) (simp_all add: distinct_update)

lemma dailyTokensFor_rebuild:
  assumes "distinct (map fst mtm)"
  shows "dailyTokensFor (rebuildDailyModelTokens mtm) date model = dayTokensOf mtm date model"
proof -
  define mk where "mk = (\<lambda>(date, tbm). \<lparr>dmtDate = date, dmtTokensByModel = tbm\<rparr>)"
  define es where "es = sortJS byTokensDate (map mk mtm)"
  have kv: "map (\<lambda>e. (dmtDate e, dmtTokensByModel e)) (map mk mtm) = mtm"
    by (simp add: mk_def comp_def split_beta)
  have ms: "mset es = mset (map mk mtm)" unfolding es_def by (rule mset_sortJS)
  then have "mset (map (\<lambda>e. (dmtDate e, dmtTokensByModel e)) es) = mset mtm"
    using kv by (metis mset_map)
  then have same: "set (map (\<lambda>e. (dmtDate e, dmtTokensByModel e)) es) = set mtm"
    and "mset (map fst (map (\<lambda>e. (dmtDate e, dmtTokensByModel e)) es)) = mset (map fst mtm)"
    by (metis mset_eq_setD, metis mset_map)
  then have dk: "distinct (map fst (map (\<lambda>e. (dmtDate e, dmtTokensByModel e)) es))"
    using assms by (metis mset_eq_imp_distinct_iff)
  then have d: "distinct (map dmtDate es)" by (simp add: comp_def)
  have "map_of (map (\<lambda>e. (dmtDate e, dmtTokensByModel e)) es) = map_of mtm"
    using dk assms same by (simp add: map_of_inject_set)
  then have "map_of (fold (\<lambda>e m. AList.update (dmtDate e) (dmtTokensByModel e) m) es []) date
      = map_of mtm date"
    using map_of_fold_update[OF d, of dmtTokensByModel "[]" date]
    by (simp split: option.splits)
  then show ?thesis
    by (simp add: dailyTokensFor_def rebuildDailyModelTokens_def es_def mk_def dayTokensOf_def
        getOr_def)
qed

lemma sessionStep_dates_distinct:
  "distinct (map fst (modelTokensMap st)) \<Longrightarrow>
   distinct (map fst (modelTokensMap (sessionStep detailMap hk s st)))"
  by (cases "detailMap (sessionId s)")
     (simp_all add: sessionStep_tokens_None sessionStep_tokens_Some distinct_update)

lemma fold_sessionStep_dates_distinct:
  "distinct (map fst (modelTokensMap st)) \<Longrightarrow>
   distinct (map fst (modelTokensMap (fold (sessionStep detailMap hk) xs st)))"
  by (induction xs arbitrary: st) (simp_all add: sessionStep_dates_distinct)

lemma fold_computeStep_fst:
  "fst (fold (computeStep detailMap hk) xs p) = fold (sessionStep detailMap hk) xs (fst p)"
  by (induction xs arbitrary: p) (simp_all add: fst_computeStep)

text \<open>
  C1 (as the code has it). In the aggregate that enrichment returns, the token entry of a
  date and a model is the snapshot's entry plus, for every recent session of that date
  whose detail parse succeeded, the input tokens plus the output tokens of the model's
  usage in the parsed detail; cache-read and cache-creation tokens are no part of it, and
  a session whose parse failed adds nothing. In the aggregate the full computation
  returns, the entry is that sum over all scanned sessions of the date. This is stated
  for scans in which no two sessions carry the same session id (the detail map is keyed
  by session id, and what happens when two sessions share one is left out here), for
  details that are \<open>plainTokens\<close>, for a model whose name is not that of an inherited
  member, and for sums within \<open>MAX_SAFE_INTEGER\<close>.
\<close>

theorem daily_tokens_entry_adds_input_plus_output:
  fixes pd :: "SessionSummaryWithPath \<Rightarrow> SessionDetail option" and date model :: string
  defines "added \<equiv> (\<lambda>s. if sessionDate s = date
                        then (case pd s of
                                Some detail \<Rightarrow>
                                  (case map_of (tokensByModel detail) model of
                                     Some usage \<Rightarrow> inputTokens usage + outputTokens usage
                                   | None \<Rightarrow> 0)
                              | None \<Rightarrow> 0)
                        else 0)"
  assumes ids: "distinct (map sessionId sessions)"
    and plain: "\<forall>s\<in>set sessions. \<forall>detail. pd s = Some detail \<longrightarrow> plainTokens (tokensByModel detail)"
    and own: "model \<notin> set inheritedKeys"
    and base: "0 \<le> dailyTokensFor (dailyModelTokens stats) date model"
    and safe: "dailyTokensFor (dailyModelTokens stats) date model + (\<Sum>s\<leftarrow>sessions. added s)
                 \<le> MAX_SAFE_INTEGER"
  shows "(\<exists>r. mergeRecentSessions (Inr sessions) pd hk stats = Inr r
             \<and> dailyTokensFor (dailyModelTokens r) date model
                 = dailyTokensFor (dailyModelTokens stats) date model
                   + (\<Sum>s\<leftarrow>recentSessions (extractDateString (lastComputedDate stats)) sessions.
                        added s))
       \<and> (\<exists>r. computeStatsFromSessions (Inr sessions) pd hk clk = Some r
             \<and> dailyTokensFor (dailyModelTokens r) date model = (\<Sum>s\<leftarrow>sessions. added s))"
proof -
  define recent where "recent = recentSessions (extractDateString (lastComputedDate stats)) sessions"
  have sub: "set recent \<subseteq> set sessions" by (auto simp: recent_def recentSessions_def)
  have ids_recent: "distinct (map sessionId recent)"
    unfolding recent_def recentSessions_def using ids by (rule distinct_map_filter)
  have keys: "\<And>s d. s \<in> set sessions \<Longrightarrow> pd s = Some d \<Longrightarrow> distinct (map fst (tokensByModel d))"
    using plain by (auto simp: plainTokens_def)
  text \<open>the loop over a list of sessions with distinct ids, from any state\<close>
  have loop: "dayTokensOf (modelTokensMap (fold (sessionStep (parseDetailsInBatches pd xs) hk) xs st))
                date model
              = dayTokensOf (modelTokensMap st) date model + (\<Sum>s\<leftarrow>xs. added s)"
    if d: "distinct (map sessionId xs)" and s: "set xs \<subseteq> set sessions" for xs st
  proof -
    define dm where "dm = parseDetailsInBatches pd xs"
    have mine: "\<And>t. t \<in> set xs \<Longrightarrow> dm (sessionId t) = pd t"
      unfolding dm_def using d by (rule parseDetailsInBatches_own)
    have k: "\<forall>t\<in>set xs. \<forall>d. dm (sessionId t) = Some d \<longrightarrow> distinct (map fst (tokensByModel d))"
      using mine keys s by auto
    have "map (\<lambda>s. if sessionDate s = date
                    then (case dm (sessionId s) of
                            Some d \<Rightarrow>
                              (case map_of (tokensByModel d) model of
                                 Some usage \<Rightarrow> inputTokens usage + outputTokens usage
                               | None \<Rightarrow> 0)
                          | None \<Rightarrow> 0)
                    else 0) xs
        = map added xs"
      by (rule map_cong) (simp_all add: mine added_def)
    with fold_sessionStep_entry[OF k, of hk st date model] show ?thesis
      by (simp add: dm_def)
  qed
  text \<open>enrichment\<close>
  have init: "dayTokensOf (modelTokensMap (initialState stats)) date model
      = dailyTokensFor (dailyModelTokens stats) date model"
    by (simp add: initialState_def dailyTokensFor_def)
  have init_d: "distinct (map fst (modelTokensMap (initialState stats)))"
    using distinct_fold_update[of "[]" dmtDate dmtTokensByModel "dailyModelTokens stats"]
    by (simp add: initialState_def)
  have merge: "\<exists>r. mergeRecentSessions (Inr sessions) pd hk stats = Inr r
             \<and> dailyTokensFor (dailyModelTokens r) date model
                 = dailyTokensFor (dailyModelTokens stats) date model + (\<Sum>s\<leftarrow>recent. added s)"
  proof (cases "recent = []")
    case True
    then have "mergeRecentSessions (Inr sessions) pd hk stats = Inr stats"
      by (simp add: mergeRecentSessions_def recent_def)
    with True show ?thesis by simp
  next
    case False
    define st where "st = fold (sessionStep (parseDetailsInBatches pd recent) hk) recent
                            (initialState stats)"
    define r where "r = stats\<lparr>dailyActivity := rebuildDailyActivity (activityMap st),
                               dailyModelTokens := rebuildDailyModelTokens (modelTokensMap st),
                               modelUsage := modelUsageAcc st,
                               totalSessions := totalSessions stats + int (length recent),
                               totalMessages := totalMessages stats + messagesAcc st,
                               longestSession := longestAcc st,
                               hourCounts := hourCountsAcc st\<rparr>"
    have m: "mergeRecentSessions (Inr sessions) pd hk stats = Inr r"
      using False unfolding r_def st_def recent_def
      by (simp add: mergeRecentSessions_def Let_def)
    have dd: "distinct (map fst (modelTokensMap st))"
      unfolding st_def using init_d by (rule fold_sessionStep_dates_distinct)
    have "dailyTokensFor (dailyModelTokens r) date model = dayTokensOf (modelTokensMap st) date model"
      using dailyTokensFor_rebuild[OF dd] by (simp add: r_def)
    also have "\<dots> = dailyTokensFor (dailyModelTokens stats) date model + (\<Sum>s\<leftarrow>recent. added s)"
      unfolding st_def using loop[OF ids_recent sub] by (simp add: init)
    finally show ?thesis using m by blast
  qed
  text \<open>full computation\<close>
  define st where "st = fold (sessionStep (parseDetailsInBatches pd sessions) hk) sessions emptyState"
  have dd: "distinct (map fst (modelTokensMap st))"
    unfolding st_def by (rule fold_sessionStep_dates_distinct) (simp add: emptyState_def)
  obtain r where c: "computeStatsFromSessions (Inr sessions) pd hk clk = Some r"
    and rd: "dailyModelTokens r = rebuildDailyModelTokens (modelTokensMap st)"
    by (simp add: computeStatsFromSessions_def Let_def fold_computeStep_fst st_def)
  have "dailyTokensFor (dailyModelTokens r) date model = dayTokensOf (modelTokensMap st) date model"
    using dailyTokensFor_rebuild[OF dd] by (simp add: rd)
  also have "\<dots> = (\<Sum>s\<leftarrow>sessions. added s)"
    unfolding st_def using loop[OF ids order_refl, of emptyState]
    by (simp add: emptyState_def dayTokensOf_def)
  finally have compute: "\<exists>r. computeStatsFromSessions (Inr sessions) pd hk clk = Some r
      \<and> dailyTokensFor (dailyModelTokens r) date model = (\<Sum>s\<leftarrow>sessions. added s)"
    using c by blast
  show ?thesis
    using merge compute by (simp add: recent_def)
qed

lemma ex_merge_two:
  "mergeRecentSessions (Inr [exOldSession, exSession]) exParseOk exHourKey exSnapshot
     = Inr exEnriched"
proof -
  have "recentSessions (extractDateString (lastComputedDate exSnapshot)) [exOldSession, exSession]
      = recentSessions (extractDateString (lastComputedDate exSnapshot)) [exSession]"
    by (simp add: recentSessions_def ex_cutoff ex_oldSessionDate ex_sessionDate)
  then have "mergeRecentSessions (Inr [exOldSession, exSession]) exParseOk exHourKey exSnapshot
      = mergeRecentSessions (Inr [exSession]) exParseOk exHourKey exSnapshot"
    by (simp add: mergeRecentSessions_def)
  then show ?thesis by (simp add: ex_merge)
qed

theorem daily_tokens_entry_adds_input_plus_output_witness:
  "distinct (map sessionId [exOldSession, exSession])
   \<and> exParseOk exOldSession = Some exDetail \<and> exParseOk exSession = Some exDetail
   \<and> plainTokens (tokensByModel exDetail) \<and> ''m'' \<notin> set inheritedKeys
   \<and> map_of (tokensByModel exDetail) ''m'' = Some exUsage
   \<and> inputTokens exUsage + outputTokens exUsage = 1200
   \<and> dailyTokensFor (dailyModelTokens exSnapshot) ''2026-01-02'' ''m'' = 0
   \<and> recentSessions (extractDateString (lastComputedDate exSnapshot)) [exOldSession, exSession]
       = [exSession]
   \<and> mergeRecentSessions (Inr [exOldSession, exSession]) exParseOk exHourKey exSnapshot
       = Inr exEnriched
   \<and> dailyTokensFor (dailyModelTokens exEnriched) ''2026-01-02'' ''m'' = 1200
   \<and> (\<exists>r. computeStatsFromSessions (Inr [exOldSession, exSession]) exParseOk exHourKey exClock
              = Some r
          \<and> dailyTokensFor (dailyModelTokens r) ''2026-01-02'' ''m'' = 1200
          \<and> dailyTokensFor (dailyModelTokens r) ''2026-01-01'' ''m'' = 1200)"
proof -
  have ids: "distinct (map sessionId [exOldSession, exSession])"
    by (simp add: exOldSession_def exSession_def)
  have pd: "exParseOk exOldSession = Some exDetail" "exParseOk exSession = Some exDetail"
    by (simp_all add: exParseOk_def)
  have pl: "plainTokens (tokensByModel exDetail)"
    by (simp add: plainTokens_def exDetail_def exUsage_def inheritedKeys_def)
  have plain: "\<forall>s\<in>set [exOldSession, exSession]. \<forall>detail.
                 exParseOk s = Some detail \<longrightarrow> plainTokens (tokensByModel detail)"
    using pl by (simp add: exParseOk_def)
  have m: "''m'' \<notin> set inheritedKeys" by (simp add: inheritedKeys_def)
  have u: "map_of (tokensByModel exDetail) ''m'' = Some exUsage"
    "inputTokens exUsage + outputTokens exUsage = 1200"
    by (simp_all add: exDetail_def exUsage_def)
  have b2: "dailyTokensFor (dailyModelTokens exSnapshot) ''2026-01-02'' ''m'' = 0"
    and b1: "dailyTokensFor (dailyModelTokens exSnapshot) ''2026-01-01'' ''m'' = 500"
    by (simp_all add: dailyTokensFor_def dayTokensOf_def getOr_def exSnapshot_def)
  have rec: "recentSessions (extractDateString (lastComputedDate exSnapshot))
               [exOldSession, exSession] = [exSession]"
    by (simp add: recentSessions_def ex_cutoff ex_oldSessionDate ex_sessionDate)
  have safe2: "dailyTokensFor (dailyModelTokens exSnapshot) ''2026-01-02'' ''m''
        + (\<Sum>s\<leftarrow>[exOldSession, exSession].
             if sessionDate s = ''2026-01-02''
             then (case exParseOk s of
                     Some detail \<Rightarrow>
                       (case map_of (tokensByModel detail) ''m'' of
                          Some usage \<Rightarrow> inputTokens usage + outputTokens usage | None \<Rightarrow> 0)
                   | None \<Rightarrow> 0)
             else 0) = 1200"
    by (simp add: b2 pd u ex_oldSessionDate ex_sessionDate)
  have safe1: "dailyTokensFor (dailyModelTokens exSnapshot) ''2026-01-01'' ''m''
        + (\<Sum>s\<leftarrow>[exOldSession, exSession].
             if sessionDate s = ''2026-01-01''
             then (case exParseOk s of
                     Some detail \<Rightarrow>
                       (case map_of (tokensByModel detail) ''m'' of
                          Some usage \<Rightarrow> inputTokens usage + outputTokens usage | None \<Rightarrow> 0)
                   | None \<Rightarrow> 0)
             else 0) = 1700"
    by (simp add: b1 pd u ex_oldSessionDate ex_sessionDate)
  note t2 = daily_tokens_entry_adds_input_plus_output[where sessions="[exOldSession, exSession]"
      and pd=exParseOk and stats=exSnapshot and date="''2026-01-02''" and model="''m''"
      and hk=exHourKey and clk=exClock, OF ids plain m]
  note t1 = daily_tokens_entry_adds_input_plus_output[where sessions="[exOldSession, exSession]"
      and pd=exParseOk and stats=exSnapshot and date="''2026-01-01''" and model="''m''"
      and hk=exHourKey and clk=exClock, OF ids plain m]
  have r2: "(\<exists>r. mergeRecentSessions (Inr [exOldSession, exSession]) exParseOk exHourKey exSnapshot
                = Inr r
             \<and> dailyTokensFor (dailyModelTokens r) ''2026-01-02'' ''m'' = 1200)
       \<and> (\<exists>r. computeStatsFromSessions (Inr [exOldSession, exSession]) exParseOk exHourKey exClock
                = Some r
             \<and> dailyTokensFor (dailyModelTokens r) ''2026-01-02'' ''m'' = 1200)"
    using t2 by (simp add: safe2 b2 MAX_SAFE_INTEGER_def rec pd u ex_oldSessionDate ex_sessionDate)
  have r1: "\<exists>r. computeStatsFromSessions (Inr [exOldSession, exSession]) exParseOk exHourKey exClock
                = Some r
             \<and> dailyTokensFor (dailyModelTokens r) ''2026-01-01'' ''m'' = 1200"
    using t1 by (simp add: safe1 b1 MAX_SAFE_INTEGER_def rec pd u ex_oldSessionDate ex_sessionDate)
  from r2 have e: "dailyTokensFor (dailyModelTokens exEnriched) ''2026-01-02'' ''m'' = 1200"
    by (simp add: ex_merge_two)
  from r2 r1 have c: "\<exists>r. computeStatsFromSessions (Inr [exOldSession, exSession]) exParseOk
                          exHourKey exClock = Some r
          \<and> dailyTokensFor (dailyModelTokens r) ''2026-01-02'' ''m'' = 1200
          \<and> dailyTokensFor (dailyModelTokens r) ''2026-01-01'' ''m'' = 1200"
    by auto
  show ?thesis
    using ids pd pl m u b2 rec ex_merge_two e c by simp
qed

text \<open>
  C1 as stated fails: the session of 2026-01-02 used 1000 input, 200 output, 50 cache-read
  and 7 cache-creation tokens of model \<open>m\<close>; the enriched aggregate and the aggregate
  computed from scratch both hold 1200 for that day and model, not 1257.
\<close>

theorem daily_tokens_four_categories_counterexample:
  "mergeRecentSessions (Inr [exSession]) exParseOk exHourKey exSnapshot = Inr exEnriched
   \<and> computeStatsFromSessions (Inr [exSession]) exParseOk exHourKey exClock = Some exComputed
   \<and> exParseOk exSession = Some exDetail
   \<and> map_of (tokensByModel exDetail) ''m'' = Some exUsage
   \<and> dailyTokensFor (dailyModelTokens exSnapshot) ''2026-01-02'' ''m'' = 0
   \<and> dailyTokensFor (dailyModelTokens exEnriched) ''2026-01-02'' ''m'' = 1200
   \<and> dailyTokensFor (dailyModelTokens exComputed) ''2026-01-02'' ''m'' = 1200
   \<and> inputTokens exUsage + outputTokens exUsage + cacheReadInputTokens exUsage
        + cacheCreationInputTokens exUsage = 1257"
  by (simp add: ex_merge ex_compute)
     (simp add: exParseOk_def exDetail_def exUsage_def dailyTokensFor_def dayTokensOf_def
        getOr_def exSnapshot_def exEnriched_def exComputed_def)

lemma ex_twin_detailMap:
  "parseDetailsInBatches exParseTwin [exSession, exTwinSession] = [''s1'' \<mapsto> exDetail]"
  "parseDetailsInBatches exParseTwin [exSession] = [''s1'' \<mapsto> exDetail]"
  by (simp_all add: parseDetailsInBatches_fold storeBatch_def exParseTwin_def exSession_def
      exTwinSession_def)

lemma ex_twinDate: "sessionDate exTwinSession = ''2026-01-02''"
  by (simp add: sessionDate_def lastActiveOrStarted_def extractDateString_def exTwinSession_def)

lemma ex_twin_recent:
  "recentSessions ''2026-01-01'' [exSession, exTwinSession] = [exSession, exTwinSession]"
  by (simp add: recentSessions_def ex_sessionDate ex_twinDate)

lemma ex_merge_twin_alone:
  "mergeRecentSessions (Inr [exSession]) exParseTwin exHourKey exSnapshot = Inr exEnriched"
  apply (simp add: mergeRecentSessions_def Let_def)
  apply (simp add: exSnapshot_def extractDateString_def ex_recent ex_twin_detailMap)
  apply (simp add: sessionStep_def Let_def initialState_def exSession_def sessionDate_def
      lastActiveOrStarted_def extractDateString_def getOr_def zeroCounts_def exDetail_def
      toolCallTotal_def addDayTokens_def addModelUsage_def exUsage_def zeroUsage_def
      updateHourCounts_def exHourKey_def longestStep_def msgCountOf_def
      rebuildDailyActivity_def rebuildDailyModelTokens_def sortJS_def byActivityDate_def byTokensDate_def exEnriched_def)
  done

lemma ex_merge_twin:
  "mergeRecentSessions (Inr [exSession, exTwinSession]) exParseTwin exHourKey exSnapshot
     = Inr exEnrichedTwin"
  apply (simp add: mergeRecentSessions_def Let_def)
  apply (simp add: exSnapshot_def extractDateString_def ex_twin_recent ex_twin_detailMap)
  apply (simp add: sessionStep_def Let_def initialState_def exSession_def exTwinSession_def
      sessionDate_def
      lastActiveOrStarted_def extractDateString_def getOr_def zeroCounts_def exDetail_def
      toolCallTotal_def addDayTokens_def addModelUsage_def exUsage_def zeroUsage_def
      updateHourCounts_def exHourKey_def longestStep_def msgCountOf_def
      rebuildDailyActivity_def rebuildDailyModelTokens_def sortJS_def byActivityDate_def byTokensDate_def exEnrichedTwin_def)
  done

text \<open>
  C6 fails on the code when a session whose parse fails shares its session id with a
  session of the delta whose parse succeeds. The log of \<open>q\<close> does not parse and its summary
  counts 7 messages; the detail of \<open>p\<close> (2 turns, 3 tool calls, 1200 daily tokens of model
  \<open>m\<close>) is stored under the id both carry. Enrichment counts the session of \<open>q\<close> with that
  detail: beside the session of \<open>p\<close> it adds 2 messages, 3 tool calls and 1200 tokens to
  the day, and the usage of \<open>p\<close> once more to the aggregate model usage, where it should
  add 7 messages and neither tool calls nor tokens.
\<close>

theorem failed_parse_under_shared_id_counts_other_detail:
  "exParseTwin exTwinSession = None \<and> exParseTwin exSession = Some exDetail
   \<and> sessionId exTwinSession = sessionId exSession
   \<and> sessionDate exTwinSession = ''2026-01-02'' \<and> messageCount exTwinSession = 7
   \<and> mergeRecentSessions (Inr [exSession]) exParseTwin exHourKey exSnapshot = Inr exEnriched
   \<and> mergeRecentSessions (Inr [exSession, exTwinSession]) exParseTwin exHourKey exSnapshot
       = Inr exEnrichedTwin
   \<and> dailyActivityFor (dailyActivity exEnriched) ''2026-01-02''
       = \<lparr>acMessageCount = 2, acSessionCount = 1, acToolCallCount = 3\<rparr>
   \<and> dailyActivityFor (dailyActivity exEnrichedTwin) ''2026-01-02''
       = \<lparr>acMessageCount = 4, acSessionCount = 2, acToolCallCount = 6\<rparr>
   \<and> dailyTokensFor (dailyModelTokens exEnriched) ''2026-01-02'' ''m'' = 1200
   \<and> dailyTokensFor (dailyModelTokens exEnrichedTwin) ''2026-01-02'' ''m'' = 2400
   \<and> totalMessages exEnriched = 6 \<and> totalMessages exEnrichedTwin = 8
   \<and> map_of (modelUsage exEnriched) ''m''
       = Some \<lparr>inputTokens = 1400, outputTokens = 300,
               cacheReadInputTokens = 60, cacheCreationInputTokens = 12\<rparr>
   \<and> map_of (modelUsage exEnrichedTwin) ''m''
       = Some \<lparr>inputTokens = 2400, outputTokens = 500,
               cacheReadInputTokens = 110, cacheCreationInputTokens = 19\<rparr>"
  by (simp add: ex_merge_twin ex_merge_twin_alone ex_twinDate)
     (simp add: exParseTwin_def exSession_def exTwinSession_def dailyActivityFor_def countsOf_def
        dailyTokensFor_def dayTokensOf_def getOr_def exEnriched_def exEnrichedTwin_def)

section \<open>Token accumulation\<close>

lemma accumulateTokens_append:
  "accumulateTokens b (xs @ ys) = fold (accumulateLine b) ys (accumulateTokens b xs)"
  by (simp add: accumulateTokens_def)

lemma accumulateLine_seen_mono:
  "rid \<in> set (seenRequestIds acc) \<Longrightarrow> rid \<in> set (seenRequestIds (accumulateLine b l acc))"
  by (auto simp: accumulateLine_def split: option.splits)

lemma fold_accumulate_seen_mono:
  "rid \<in> set (seenRequestIds acc) \<Longrightarrow>
   rid \<in> set (seenRequestIds (fold (accumulateLine b) xs acc))"
  by (induction xs arbitrary: acc) (simp_all add: accumulateLine_seen_mono)

lemma accumulateLine_marks_seen:
  "requestId l = Some rid \<Longrightarrow> lineModelUsage l \<noteq> None \<Longrightarrow>
   rid \<in> set (seenRequestIds (accumulateLine b l acc))"
  by (auto simp: accumulateLine_def split: option.splits)

lemma fold_accumulate_marks_seen:
  "l' \<in> set xs \<Longrightarrow> requestId l' = Some rid \<Longrightarrow> lineModelUsage l' \<noteq> None \<Longrightarrow>
   rid \<in> set (seenRequestIds (fold (accumulateLine b) xs acc))"
proof (induction xs arbitrary: acc)
  case Nil
  then show ?case by simp
next
  case (Cons x xs)
  show ?case
  proof (cases "l' = x")
    case True
    with Cons.prems have "rid \<in> set (seenRequestIds (accumulateLine b x acc))"
      by (simp add: accumulateLine_marks_seen)
    then show ?thesis by (simp add: fold_accumulate_seen_mono)
  next
    case False
    with Cons show ?thesis by simp
  qed
qed

lemma accumulateLine_seen_origin:
  "rid \<in> set (seenRequestIds (accumulateLine b l acc)) \<Longrightarrow>
   rid \<in> set (seenRequestIds acc) \<or> (requestId l = Some rid \<and> lineModelUsage l \<noteq> None)"
  by (auto simp: accumulateLine_def split: option.splits if_splits)

lemma fold_accumulate_seen_origin:
  "rid \<in> set (seenRequestIds (fold (accumulateLine b) xs acc)) \<Longrightarrow>
   rid \<in> set (seenRequestIds acc)
   \<or> (\<exists>l'\<in>set xs. requestId l' = Some rid \<and> lineModelUsage l' \<noteq> None)"
proof (induction xs arbitrary: acc)
  case Nil
  then show ?case by simp
next
  case (Cons x xs)
  from Cons.prems have "rid \<in> set (seenRequestIds (fold (accumulateLine b) xs (accumulateLine b x acc)))"
    by simp
  from Cons.IH[OF this] show ?case
  proof
    assume "rid \<in> set (seenRequestIds (accumulateLine b x acc))"
    from accumulateLine_seen_origin[OF this] show ?thesis by auto
  next
    assume "\<exists>l'\<in>set xs. requestId l' = Some rid \<and> lineModelUsage l' \<noteq> None"
    then show ?thesis by auto
  qed
qed

lemma accumulateLine_duplicate:
  "requestId l = Some rid \<Longrightarrow> rid \<in> set (seenRequestIds acc) \<Longrightarrow> accumulateLine b l acc = acc"
  by (auto simp: accumulateLine_def split: option.splits)

lemma accumulateLine_first:
  "requestId l = Some rid \<Longrightarrow> lineModelUsage l = Some (model, usage) \<Longrightarrow>
   rid \<notin> set (seenRequestIds acc) \<Longrightarrow>
   tokenTotals (accumulateLine b l acc) = addUsage model usage (tokenTotals acc)"
  by (simp add: accumulateLine_def)

text \<open>
  C2. In the accumulation over one log (the parent's or a sub-agent's): a line whose request
  id was already carried by an earlier line with a model/usage pair adds nothing, the
  totals and the set of seen ids are the same with and without it; and the first line that
  carries a request id with a model/usage pair adds its usage to the model's running total.
  So the usage under one request id is counted exactly once, however many lines repeat it.
\<close>

theorem duplicate_request_id_counted_once:
  "(requestId l = Some rid
      \<and> (\<exists>l'\<in>set xs. requestId l' = Some rid \<and> lineModelUsage l' \<noteq> None) \<longrightarrow>
    accumulateTokens b (xs @ l # ys) = accumulateTokens b (xs @ ys))
   \<and> (requestId l = Some rid \<and> lineModelUsage l = Some (model, usage)
      \<and> (\<forall>l'\<in>set xs. requestId l' = Some rid \<longrightarrow> lineModelUsage l' = None) \<longrightarrow>
    tokenTotals (accumulateTokens b (xs @ [l]))
      = addUsage model usage (tokenTotals (accumulateTokens b xs)))"
proof (intro conjI impI)
  assume a: "requestId l = Some rid
      \<and> (\<exists>l'\<in>set xs. requestId l' = Some rid \<and> lineModelUsage l' \<noteq> None)"
  then obtain l' where "l' \<in> set xs" "requestId l' = Some rid" "lineModelUsage l' \<noteq> None"
    by blast
  then have "rid \<in> set (seenRequestIds (accumulateTokens b xs))"
    unfolding accumulateTokens_def by (rule fold_accumulate_marks_seen)
  with a have "accumulateLine b l (accumulateTokens b xs) = accumulateTokens b xs"
    by (simp add: accumulateLine_duplicate)
  then show "accumulateTokens b (xs @ l # ys) = accumulateTokens b (xs @ ys)"
    by (simp add: accumulateTokens_append)
next
  assume a: "requestId l = Some rid \<and> lineModelUsage l = Some (model, usage)
      \<and> (\<forall>l'\<in>set xs. requestId l' = Some rid \<longrightarrow> lineModelUsage l' = None)"
  have "rid \<notin> set (seenRequestIds (accumulateTokens b xs))"
  proof
    assume "rid \<in> set (seenRequestIds (accumulateTokens b xs))"
    then have "rid \<in> set (seenRequestIds emptyTokenAcc)
        \<or> (\<exists>l'\<in>set xs. requestId l' = Some rid \<and> lineModelUsage l' \<noteq> None)"
      unfolding accumulateTokens_def by (rule fold_accumulate_seen_origin)
    with a show False by (auto simp: emptyTokenAcc_def)
  qed
  with a show "tokenTotals (accumulateTokens b (xs @ [l]))
      = addUsage model usage (tokenTotals (accumulateTokens b xs))"
    by (simp add: accumulateTokens_append accumulateLine_first)
qed

theorem duplicate_request_id_counted_once_witness:
  "requestId exLineSame = Some ''req-same''
   \<and> accumulateTokens True [exLineSame, exLineSame, exLineDifferent]
       = accumulateTokens True [exLineSame, exLineDifferent]
   \<and> tokenTotals (accumulateTokens True [exLineSame, exLineSame, exLineDifferent])
       = [(''claude-opus-4-6'',
           \<lparr>inputTokens = 13000, outputTokens = 3000,
            cacheReadInputTokens = 5000, cacheCreationInputTokens = 1500\<rparr>)]
   \<and> tokenTotals (accumulateTokens True [exLineSame])
       = [(''claude-opus-4-6'',
           \<lparr>inputTokens = 5000, outputTokens = 1000,
            cacheReadInputTokens = 2000, cacheCreationInputTokens = 500\<rparr>)]"
proof -
  have r: "requestId exLineSame = Some ''req-same''" by (simp add: exLineSame_def)
  have h1: "requestId exLineSame = Some ''req-same''
      \<and> (\<exists>l'\<in>set [exLineSame]. requestId l' = Some ''req-same'' \<and> lineModelUsage l' \<noteq> None)"
    by (simp add: exLineSame_def)
  have h2: "requestId exLineSame = Some ''req-same''
      \<and> lineModelUsage exLineSame = Some (''claude-opus-4-6'',
            \<lparr>inputTokens = 5000, outputTokens = 1000,
             cacheReadInputTokens = 2000, cacheCreationInputTokens = 500\<rparr>)
      \<and> (\<forall>l'\<in>set []. requestId l' = Some ''req-same'' \<longrightarrow> lineModelUsage l' = None)"
    by (simp add: exLineSame_def)
  have e: "tokenTotals (accumulateTokens True [exLineSame, exLineDifferent])
       = [(''claude-opus-4-6'',
           \<lparr>inputTokens = 13000, outputTokens = 3000,
            cacheReadInputTokens = 5000, cacheCreationInputTokens = 1500\<rparr>)]"
    by (simp add: accumulateTokens_def accumulateLine_def emptyTokenAcc_def exLineSame_def
        exLineDifferent_def addUsage_def getOr_def zeroUsage_def)
  have z: "tokenTotals (accumulateTokens True []) = []"
    by (simp add: accumulateTokens_def emptyTokenAcc_def)
  from duplicate_request_id_counted_once[of exLineSame "''req-same''" "[exLineSame]" True
      "[exLineDifferent]", THEN conjunct1, THEN mp, OF h1]
  have d: "accumulateTokens True [exLineSame, exLineSame, exLineDifferent]
       = accumulateTokens True [exLineSame, exLineDifferent]" by simp
  from duplicate_request_id_counted_once[of exLineSame "''req-same''" "[]" True "[]"
      "''claude-opus-4-6''", THEN conjunct2, THEN mp, OF h2]
  have f: "tokenTotals (accumulateTokens True [exLineSame])
       = [(''claude-opus-4-6'',
           \<lparr>inputTokens = 5000, outputTokens = 1000,
            cacheReadInputTokens = 2000, cacheCreationInputTokens = 500\<rparr>)]"
    by (simp add: z addUsage_def zeroUsage_def)
  show ?thesis using r d e f by simp
qed

section \<open>The store: which objects are written\<close>

lemmas storeNew = newStats_def newArray_def newActivityEntry_def newTokensEntry_def
  newCounts_def newNumberRecord_def newUsage_def newUsageRecord_def newLongest_def

lemmas storeSet = setCounts_def setNumberRecord_def setUsage_def setUsageRecord_def

lemma frame_refl: "frame (nextRef h) h h"
  by (simp add: frame_def sameObjectsBelow_def)

lemma frame_sameObjects: "frame n h0 h \<Longrightarrow> sameObjectsBelow n h0 h"
  by (simp add: frame_def)

lemma snd_update_subset: "snd ` set (AList.update k v m) \<subseteq> insert v (snd ` set m)"
  by (induction m) auto

lemma frame_new:
  assumes "frame n h0 h"
  shows "frame n h0 (snd (newStats v1 h))" "frame n h0 (snd (newArray v2 h))"
    "frame n h0 (snd (newActivityEntry v3 h))" "frame n h0 (snd (newTokensEntry v4 h))"
    "frame n h0 (snd (newCounts v5 h))" "frame n h0 (snd (newNumberRecord v6 h))"
    "frame n h0 (snd (newUsage v7 h))" "frame n h0 (snd (newUsageRecord v8 h))"
    "frame n h0 (snd (newLongest v9 h))"
  using assms by (auto simp: frame_def sameObjectsBelow_def storeNew)

lemma fst_new:
  "fst (newStats v1 h) = nextRef h" "fst (newArray v2 h) = nextRef h"
  "fst (newActivityEntry v3 h) = nextRef h" "fst (newTokensEntry v4 h) = nextRef h"
  "fst (newCounts v5 h) = nextRef h" "fst (newNumberRecord v6 h) = nextRef h"
  "fst (newUsage v7 h) = nextRef h" "fst (newUsageRecord v8 h) = nextRef h"
  "fst (newLongest v9 h) = nextRef h"
  by (simp_all add: storeNew)

lemma frame_set:
  assumes "frame n h0 h" and "n \<le> r"
  shows "frame n h0 (setCounts r v1 h)" "frame n h0 (setNumberRecord r v2 h)"
    "frame n h0 (setUsage r v3 h)" "frame n h0 (setUsageRecord r v4 h)"
  using assms by (auto simp: frame_def sameObjectsBelow_def storeSet)

lemma frame_nextRef: "frame n h0 h \<Longrightarrow> n \<le> nextRef h"
  by (simp add: frame_def)

lemma addDayTokensS_frame:
  "frame n h0 h \<Longrightarrow> n \<le> r \<Longrightarrow> frame n h0 (addDayTokensS tbm r h)"
proof (induction tbm arbitrary: h)
  case Nil
  then show ?case by (simp add: addDayTokensS_def)
next
  case (Cons a tbm)
  obtain m u where a: "a = (m, u)" by (cases a)
  have "addDayTokensS (a # tbm) r h =
      addDayTokensS tbm r
        (setNumberRecord r (AList.update m (getOr (numberRecordAt h r) m 0
            + (inputTokens u + outputTokens u)) (numberRecordAt h r)) h)"
    by (simp add: addDayTokensS_def a Let_def)
  with Cons frame_set(2) show ?case by simp
qed

lemma addDayTokensS_usageRecordAt:
  "usageRecordAt (addDayTokensS tbm r h) = usageRecordAt h"
proof (induction tbm arbitrary: h)
  case Nil
  then show ?case by (simp add: addDayTokensS_def)
next
  case (Cons a tbm)
  obtain m u where a: "a = (m, u)" by (cases a)
  have "addDayTokensS (a # tbm) r h =
      addDayTokensS tbm r
        (setNumberRecord r (AList.update m (getOr (numberRecordAt h r) m 0
            + (inputTokens u + outputTokens u)) (numberRecordAt h r)) h)"
    by (simp add: addDayTokensS_def a Let_def)
  with Cons show ?case by (simp add: setNumberRecord_def)
qed

text \<open>One model of the detail, added to the aggregate model usage.\<close>

lemma addModelUsageS_Cons:
  "addModelUsageS ((m, u) # tbm) mu h = addModelUsageS tbm mu (usageStepS m u mu h)"
  by (simp add: addModelUsageS_def)

lemma map_of_snd_bound:
  "map_of m k = Some v \<Longrightarrow> \<forall>p\<in>set m. (n::nat) \<le> snd p \<Longrightarrow> n \<le> v"
proof -
  assume "map_of m k = Some v" and b: "\<forall>p\<in>set m. n \<le> snd p"
  then have "(k, v) \<in> set m" by (simp add: map_of_SomeD)
  with b have "n \<le> snd (k, v)" by blast
  then show ?thesis by simp
qed

lemma update_refs_bound:
  "\<forall>p\<in>set m. n \<le> snd p \<Longrightarrow> n \<le> v \<Longrightarrow> \<forall>p\<in>set (AList.update k v m). (n::nat) \<le> snd p"
  by (induction m) auto

lemma usage_step_inv:
  assumes "usageInv n h0 mu h"
  shows "usageInv n h0 mu (usageStepS m u mu h)"
proof (cases "map_of (usageRecordAt h mu) m")
  case None
  let ?e = "nextRef h"
  let ?h1 = "snd (newUsage zeroUsage h)"
  let ?f = "\<lambda>old. old\<lparr>inputTokens := inputTokens old + inputTokens u,
                      outputTokens := outputTokens old + outputTokens u,
                      cacheReadInputTokens := cacheReadInputTokens old + cacheReadInputTokens u,
                      cacheCreationInputTokens :=
                        cacheCreationInputTokens old + cacheCreationInputTokens u\<rparr>"
  let ?h2 = "setUsage ?e (?f (usageAt ?h1 ?e)) ?h1"
  have f1: "frame n h0 ?h1" using assms by (simp add: usageInv_def frame_new)
  have ne: "n \<le> ?e" using assms by (simp add: usageInv_def frame_def)
  have f2: "frame n h0 ?h2" using f1 ne by (rule frame_set)
  have rec: "usageRecordAt ?h2 mu = usageRecordAt h mu"
    by (simp add: storeNew storeSet)
  have f3: "frame n h0 (setUsageRecord mu (AList.update m ?e (usageRecordAt ?h2 mu)) ?h2)"
    using f2 assms by (simp add: usageInv_def frame_set)
  have "\<forall>p\<in>set (AList.update m ?e (usageRecordAt h mu)). n \<le> snd p"
    using assms ne by (intro update_refs_bound) (simp_all add: usageInv_def)
  then have "usageInv n h0 mu (setUsageRecord mu (AList.update m ?e (usageRecordAt ?h2 mu)) ?h2)"
    using f3 assms rec by (simp add: usageInv_def setUsageRecord_def)
  with None show ?thesis by (simp add: usageStepS_def Let_def split_beta fst_new)
next
  case (Some e)
  let ?f = "\<lambda>old. old\<lparr>inputTokens := inputTokens old + inputTokens u,
                      outputTokens := outputTokens old + outputTokens u,
                      cacheReadInputTokens := cacheReadInputTokens old + cacheReadInputTokens u,
                      cacheCreationInputTokens :=
                        cacheCreationInputTokens old + cacheCreationInputTokens u\<rparr>"
  let ?h2 = "setUsage e (?f (usageAt h e)) h"
  have ne: "n \<le> e" using assms map_of_snd_bound[OF Some] by (simp add: usageInv_def)
  have f2: "frame n h0 ?h2" using assms ne by (simp add: usageInv_def frame_set)
  have rec: "usageRecordAt ?h2 mu = usageRecordAt h mu"
    by (simp add: storeSet)
  have f3: "frame n h0 (setUsageRecord mu (AList.update m e (usageRecordAt ?h2 mu)) ?h2)"
    using f2 assms by (simp add: usageInv_def frame_set)
  have "\<forall>p\<in>set (AList.update m e (usageRecordAt h mu)). n \<le> snd p"
    using assms ne by (intro update_refs_bound) (simp_all add: usageInv_def)
  then have "usageInv n h0 mu (setUsageRecord mu (AList.update m e (usageRecordAt ?h2 mu)) ?h2)"
    using f3 assms rec by (simp add: usageInv_def setUsageRecord_def)
  with Some show ?thesis by (simp add: usageStepS_def Let_def)
qed

lemma addModelUsageS_inv:
  "usageInv n h0 mu h \<Longrightarrow> usageInv n h0 mu (addModelUsageS tbm mu h)"
proof (induction tbm arbitrary: h)
  case Nil
  then show ?case by (simp add: addModelUsageS_def)
next
  case (Cons a tbm)
  obtain m u where a: "a = (m, u)" by (cases a)
  show ?case
    unfolding a addModelUsageS_Cons
    by (rule Cons.IH) (rule usage_step_inv[OF Cons.prems])
qed

lemma usageInv_frame: "usageInv n h0 mu h \<Longrightarrow> frame n h0 h"
  by (simp add: usageInv_def)

lemma usageInv_new:
  assumes "usageInv n h0 mu h"
  shows "usageInv n h0 mu (snd (newCounts v1 h))"
    "usageInv n h0 mu (snd (newNumberRecord v2 h))"
    "usageInv n h0 mu (snd (newLongest v3 h))"
    "usageInv n h0 mu (snd (newActivityEntry v4 h))"
    "usageInv n h0 mu (snd (newTokensEntry v5 h))"
    "usageInv n h0 mu (snd (newArray v6 h))"
proof -
  have f: "frame n h0 h" using assms by (rule usageInv_frame)
  show "usageInv n h0 mu (snd (newCounts v1 h))"
    using assms frame_new(5)[OF f] by (simp add: usageInv_def) (simp add: storeNew)
  show "usageInv n h0 mu (snd (newNumberRecord v2 h))"
    using assms frame_new(6)[OF f] by (simp add: usageInv_def) (simp add: storeNew)
  show "usageInv n h0 mu (snd (newLongest v3 h))"
    using assms frame_new(9)[OF f] by (simp add: usageInv_def) (simp add: storeNew)
  show "usageInv n h0 mu (snd (newActivityEntry v4 h))"
    using assms frame_new(3)[OF f] by (simp add: usageInv_def) (simp add: storeNew)
  show "usageInv n h0 mu (snd (newTokensEntry v5 h))"
    using assms frame_new(4)[OF f] by (simp add: usageInv_def) (simp add: storeNew)
  show "usageInv n h0 mu (snd (newArray v6 h))"
    using assms frame_new(2)[OF f] by (simp add: usageInv_def) (simp add: storeNew)
qed

lemma usageInv_set:
  assumes "usageInv n h0 mu h" and "n \<le> r"
  shows "usageInv n h0 mu (setCounts r v1 h)" "usageInv n h0 mu (setNumberRecord r v2 h)"
proof -
  have f: "frame n h0 h" using assms(1) by (rule usageInv_frame)
  show "usageInv n h0 mu (setCounts r v1 h)"
    using assms frame_set(1)[OF f assms(2)] by (simp add: usageInv_def) (simp add: storeSet)
  show "usageInv n h0 mu (setNumberRecord r v2 h)"
    using assms frame_set(2)[OF f assms(2)] by (simp add: usageInv_def) (simp add: storeSet)
qed

lemma usageInv_addDayTokensS:
  assumes "usageInv n h0 mu h" and "n \<le> r"
  shows "usageInv n h0 mu (addDayTokensS tbm r h)"
  using assms addDayTokensS_frame[of n h0 h r tbm]
  by (simp add: usageInv_def addDayTokensS_usageRecordAt)

lemma usageInv_nextRef: "usageInv n h0 mu h \<Longrightarrow> n \<le> nextRef h"
  by (simp add: usageInv_def frame_def)

text \<open>\<open>map.get(date) ?? { ... }\<close>: the object of the map, or a new one.\<close>

lemma getOrNewCounts_inv:
  assumes "usageInv n h0 mu h" and "\<forall>p\<in>set m. n \<le> snd p"
  shows "n \<le> fst (case map_of m k of Some c \<Rightarrow> (c, h) | None \<Rightarrow> newCounts v h)
       \<and> usageInv n h0 mu (snd (case map_of m k of Some c \<Rightarrow> (c, h) | None \<Rightarrow> newCounts v h))"
proof (cases "map_of m k")
  case None
  with assms usageInv_nextRef[OF assms(1)] show ?thesis by (simp add: fst_new usageInv_new)
next
  case (Some c)
  with assms map_of_snd_bound[OF Some assms(2)] show ?thesis by simp
qed

lemma getOrNewNumberRecord_inv:
  assumes "usageInv n h0 mu h" and "\<forall>p\<in>set m. n \<le> snd p"
  shows "n \<le> fst (case map_of m k of Some c \<Rightarrow> (c, h) | None \<Rightarrow> newNumberRecord v h)
       \<and> usageInv n h0 mu (snd (case map_of m k of Some c \<Rightarrow> (c, h) | None \<Rightarrow> newNumberRecord v h))"
proof (cases "map_of m k")
  case None
  with assms usageInv_nextRef[OF assms(1)] show ?thesis by (simp add: fst_new usageInv_new)
next
  case (Some c)
  with assms map_of_snd_bound[OF Some assms(2)] show ?thesis by simp
qed

text \<open>Each part of an iteration keeps the invariant, and so does the iteration.\<close>

lemma currentCounts_inv:
  assumes "usageInv n h0 mu h" and "\<forall>p\<in>set am. n \<le> snd p"
  shows "n \<le> fst (currentCounts am date h) \<and> usageInv n h0 mu (snd (currentCounts am date h))"
  unfolding currentCounts_def using assms by (rule getOrNewCounts_inv)

lemma currentDayTokens_inv:
  assumes "usageInv n h0 mu h" and "\<forall>p\<in>set mtm. n \<le> snd p"
  shows "n \<le> fst (currentDayTokens mtm date h)
       \<and> usageInv n h0 mu (snd (currentDayTokens mtm date h))"
  unfolding currentDayTokens_def using assms by (rule getOrNewNumberRecord_inv)

lemma withDetailS_inv:
  assumes u: "usageInv n h0 (lrModelUsage lr) h" and l: "localFresh n lr" and cur: "n \<le> cur"
  shows "usageInv n h0 (lrModelUsage lr) (snd (withDetailS d date cur lr h))
       \<and> localFresh n (fst (withDetailS d date cur lr h))
       \<and> lrModelUsage (fst (withDetailS d date cur lr h)) = lrModelUsage lr"
proof -
  let ?mu = "lrModelUsage lr"
  let ?h1 = "setCounts cur ((countsAt h cur)\<lparr>acMessageCount :=
                 acMessageCount (countsAt h cur) + int (length (turns d))\<rparr>) h"
  let ?h2 = "setCounts cur ((countsAt ?h1 cur)\<lparr>acToolCallCount :=
                 acToolCallCount (countsAt ?h1 cur) + toolCallTotal d\<rparr>) ?h1"
  let ?t = "currentDayTokens (lrModelTokensMap lr) date ?h2"
  have tm: "\<forall>p\<in>set (lrModelTokensMap lr). n \<le> snd p"
    using l by (simp add: localFresh_def)
  have u1: "usageInv n h0 ?mu ?h1" using u cur by (rule usageInv_set)
  have u2: "usageInv n h0 ?mu ?h2" using u1 cur by (rule usageInv_set)
  have dt: "n \<le> fst ?t" and u3: "usageInv n h0 ?mu (snd ?t)"
    using currentDayTokens_inv[OF u2 tm, of date] by simp_all
  have u4: "usageInv n h0 ?mu (addDayTokensS (tokensByModel d) (fst ?t) (snd ?t))"
    using u3 dt by (rule usageInv_addDayTokensS)
  have u5: "usageInv n h0 ?mu
      (addModelUsageS (tokensByModel d) ?mu (addDayTokensS (tokensByModel d) (fst ?t) (snd ?t)))"
    using u4 by (rule addModelUsageS_inv)
  have "\<forall>p\<in>set (AList.update date (fst ?t) (lrModelTokensMap lr)). n \<le> snd p"
    using tm dt by (intro update_refs_bound) simp_all
  with u5 l show ?thesis
    by (simp add: withDetailS_def Let_def split_beta localFresh_def)
qed

lemma withoutDetailS_inv:
  assumes u: "usageInv n h0 (lrModelUsage lr) h" and l: "localFresh n lr" and cur: "n \<le> cur"
  shows "usageInv n h0 (lrModelUsage lr) (snd (withoutDetailS s date cur lr h))
       \<and> localFresh n (fst (withoutDetailS s date cur lr h))
       \<and> lrModelUsage (fst (withoutDetailS s date cur lr h)) = lrModelUsage lr"
proof -
  let ?mu = "lrModelUsage lr"
  let ?h1 = "setCounts cur ((countsAt h cur)\<lparr>acMessageCount :=
                 acMessageCount (countsAt h cur) + messageCount s\<rparr>) h"
  have tm: "\<forall>p\<in>set (lrModelTokensMap lr). n \<le> snd p"
    using l by (simp add: localFresh_def)
  have u1: "usageInv n h0 ?mu ?h1" using u cur by (rule usageInv_set)
  have "n \<le> nextRef ?h1" using u1 by (rule usageInv_nextRef)
  then have "\<forall>p\<in>set (AList.update date (nextRef ?h1) (lrModelTokensMap lr)). n \<le> snd p"
    using tm by (intro update_refs_bound) simp_all
  with u1 usageInv_new(2)[OF u1] l show ?thesis
    by (simp add: withoutDetailS_def Let_def split_beta localFresh_def fst_new)
qed

lemma longestStepS_inv:
  assumes u: "usageInv n h0 (lrModelUsage lr) h" and l: "localFresh n lr"
  shows "usageInv n h0 (lrModelUsage lr) (snd (longestStepS detail s lr h))
       \<and> localFresh n (fst (longestStepS detail s lr h))
       \<and> lrModelUsage (fst (longestStepS detail s lr h)) = lrModelUsage lr"
  using u l usageInv_new(3)[OF u]
  by (simp add: longestStepS_def Let_def split_beta localFresh_def)

lemma sessionStepS_inv:
  assumes u: "usageInv n h0 (lrModelUsage lr) h" and l: "localFresh n lr"
  shows "usageInv n h0 (lrModelUsage lr) (snd (sessionStepS dm hk s (lr, h)))
       \<and> localFresh n (fst (sessionStepS dm hk s (lr, h)))
       \<and> lrModelUsage (fst (sessionStepS dm hk s (lr, h))) = lrModelUsage lr"
proof -
  let ?mu = "lrModelUsage lr"
  let ?date = "sessionDate s"
  let ?c = "currentCounts (lrActivityMap lr) ?date h"
  let ?h2 = "setCounts (fst ?c) ((countsAt (snd ?c) (fst ?c))
               \<lparr>acSessionCount := acSessionCount (countsAt (snd ?c) (fst ?c)) + 1\<rparr>) (snd ?c)"
  let ?r3 = "case dm (sessionId s) of
               Some d \<Rightarrow> withDetailS d ?date (fst ?c) lr ?h2
             | None \<Rightarrow> withoutDetailS s ?date (fst ?c) lr ?h2"
  let ?lr4 = "(fst ?r3)\<lparr>lrActivityMap := AList.update ?date (fst ?c) (lrActivityMap (fst ?r3))\<rparr>"
  let ?h4 = "setNumberRecord (lrHourCounts ?lr4)
               (updateHourCounts hk (numberRecordAt (snd ?r3) (lrHourCounts ?lr4)) s) (snd ?r3)"
  have am: "\<forall>p\<in>set (lrActivityMap lr). n \<le> snd p"
    using l by (simp add: localFresh_def)
  have cur: "n \<le> fst ?c" and u1: "usageInv n h0 ?mu (snd ?c)"
    using currentCounts_inv[OF u am, of ?date] by simp_all
  have u2: "usageInv n h0 ?mu ?h2" using u1 cur by (rule usageInv_set)
  have r3: "usageInv n h0 ?mu (snd ?r3) \<and> localFresh n (fst ?r3) \<and> lrModelUsage (fst ?r3) = ?mu"
    using withDetailS_inv[OF u2 l cur] withoutDetailS_inv[OF u2 l cur]
    by (cases "dm (sessionId s)") simp_all
  have "\<forall>p\<in>set (AList.update ?date (fst ?c) (lrActivityMap (fst ?r3))). n \<le> snd p"
    using r3 cur by (intro update_refs_bound) (simp_all add: localFresh_def)
  with r3 have l4: "localFresh n ?lr4" and m4: "lrModelUsage ?lr4 = ?mu"
    and hc4: "n \<le> lrHourCounts ?lr4"
    by (simp_all add: localFresh_def)
  have u4: "usageInv n h0 (lrModelUsage ?lr4) ?h4"
    using r3 hc4 m4 by (intro usageInv_set) simp_all
  have step: "sessionStepS dm hk s (lr, h) = longestStepS (dm (sessionId s)) s ?lr4 ?h4"
    by (simp add: sessionStepS_def Let_def split_beta)
  show ?thesis
    unfolding step using longestStepS_inv[OF u4 l4] m4 by simp
qed

lemma fold_sessionStepS_inv:
  assumes "usageInv n h0 (lrModelUsage lr) h" and "localFresh n lr"
  shows "usageInv n h0 (lrModelUsage lr) (snd (fold (sessionStepS dm hk) xs (lr, h)))
       \<and> localFresh n (fst (fold (sessionStepS dm hk) xs (lr, h)))
       \<and> lrModelUsage (fst (fold (sessionStepS dm hk) xs (lr, h))) = lrModelUsage lr"
  using assms
proof (induction xs arbitrary: lr h)
  case Nil
  then show ?case by simp
next
  case (Cons x xs)
  obtain lr' h' where p: "sessionStepS dm hk x (lr, h) = (lr', h')"
    by (cases "sessionStepS dm hk x (lr, h)")
  from sessionStepS_inv[OF Cons.prems, of dm hk x] p
  have u: "usageInv n h0 (lrModelUsage lr') h'" and l: "localFresh n lr'"
    and m: "lrModelUsage lr' = lrModelUsage lr" by simp_all
  from Cons.IH[OF u l] p m show ?case by simp
qed

text \<open>The copies made before the loop are new objects; so are the arrays built after it.\<close>

lemma copyDailyActivity_inv_aux:
  assumes "frame n h0 h" and "\<forall>p\<in>set m. n \<le> snd p"
  shows "frame n h0 (snd (fold (\<lambda>e (m, h).
             let entry = activityEntryAt h e;
                 (c, h') = newCounts \<lparr>acMessageCount = daMessageCount entry,
                                      acSessionCount = daSessionCount entry,
                                      acToolCallCount = daToolCallCount entry\<rparr> h
             in (AList.update (daDate entry) c m, h')) entries (m, h)))
       \<and> (\<forall>p\<in>set (fst (fold (\<lambda>e (m, h).
             let entry = activityEntryAt h e;
                 (c, h') = newCounts \<lparr>acMessageCount = daMessageCount entry,
                                      acSessionCount = daSessionCount entry,
                                      acToolCallCount = daToolCallCount entry\<rparr> h
             in (AList.update (daDate entry) c m, h')) entries (m, h))). n \<le> snd p)"
  using assms
proof (induction entries arbitrary: m h)
  case Nil
  then show ?case by simp
next
  case (Cons e entries)
  let ?entry = "activityEntryAt h e"
  let ?v = "\<lparr>acMessageCount = daMessageCount ?entry, acSessionCount = daSessionCount ?entry,
             acToolCallCount = daToolCallCount ?entry\<rparr>"
  have f: "frame n h0 (snd (newCounts ?v h))" using Cons.prems(1) by (rule frame_new)
  have "n \<le> nextRef h" using Cons.prems(1) by (rule frame_nextRef)
  then have b: "\<forall>p\<in>set (AList.update (daDate ?entry) (nextRef h) m). n \<le> snd p"
    using Cons.prems(2) by (intro update_refs_bound) simp_all
  from Cons.IH[OF f b] show ?case by (simp add: Let_def split_beta fst_new)
qed

lemma copyDailyActivity_inv:
  assumes "frame n h0 h"
  shows "frame n h0 (snd (copyDailyActivity entries h))
       \<and> (\<forall>p\<in>set (fst (copyDailyActivity entries h)). n \<le> snd p)"
  unfolding copyDailyActivity_def
  using copyDailyActivity_inv_aux[OF assms, of "[]" entries] by simp

lemma copyDailyModelTokens_inv_aux:
  assumes "frame n h0 h" and "\<forall>p\<in>set m. n \<le> snd p"
  shows "frame n h0 (snd (fold (\<lambda>e (m, h).
             let (date, tokens) = tokensEntryAt h e;
                 (c, h') = newNumberRecord (numberRecordAt h tokens) h
             in (AList.update date c m, h')) entries (m, h)))
       \<and> (\<forall>p\<in>set (fst (fold (\<lambda>e (m, h).
             let (date, tokens) = tokensEntryAt h e;
                 (c, h') = newNumberRecord (numberRecordAt h tokens) h
             in (AList.update date c m, h')) entries (m, h))). n \<le> snd p)"
  using assms
proof (induction entries arbitrary: m h)
  case Nil
  then show ?case by simp
next
  case (Cons e entries)
  let ?v = "numberRecordAt h (snd (tokensEntryAt h e))"
  have f: "frame n h0 (snd (newNumberRecord ?v h))" using Cons.prems(1) by (rule frame_new)
  have "n \<le> nextRef h" using Cons.prems(1) by (rule frame_nextRef)
  then have b: "\<forall>p\<in>set (AList.update (fst (tokensEntryAt h e)) (nextRef h) m). n \<le> snd p"
    using Cons.prems(2) by (intro update_refs_bound) simp_all
  from Cons.IH[OF f b] show ?case by (simp add: Let_def split_beta fst_new)
qed

lemma copyDailyModelTokens_inv:
  assumes "frame n h0 h"
  shows "frame n h0 (snd (copyDailyModelTokens entries h))
       \<and> (\<forall>p\<in>set (fst (copyDailyModelTokens entries h)). n \<le> snd p)"
  unfolding copyDailyModelTokens_def
  using copyDailyModelTokens_inv_aux[OF assms, of "[]" entries] by simp

lemma copyModelUsage_inv:
  "usageInv n h0 target h \<Longrightarrow> usageInv n h0 target (copyModelUsage entries target h)"
proof (induction entries arbitrary: h)
  case Nil
  then show ?case by (simp add: copyModelUsage_def)
next
  case (Cons a entries)
  obtain m u where a: "a = (m, u)" by (cases a)
  let ?h1 = "snd (newUsage (usageAt h u) h)"
  let ?h2 = "setUsageRecord target (AList.update m (nextRef h) (usageRecordAt ?h1 target)) ?h1"
  have f: "frame n h0 h" and t: "n \<le> target"
    and b: "\<forall>p\<in>set (usageRecordAt h target). n \<le> snd p"
    using Cons.prems by (simp_all add: usageInv_def)
  have f1: "frame n h0 ?h1" using f by (rule frame_new)
  have f2: "frame n h0 ?h2" using f1 t by (rule frame_set)
  have rec: "usageRecordAt ?h1 target = usageRecordAt h target" by (simp add: storeNew)
  have "n \<le> nextRef h" using f by (rule frame_nextRef)
  then have "\<forall>p\<in>set (AList.update m (nextRef h) (usageRecordAt h target)). n \<le> snd p"
    using b by (intro update_refs_bound) simp_all
  then have "usageInv n h0 target ?h2"
    using f2 t rec by (simp add: usageInv_def) (simp add: setUsageRecord_def)
  from Cons.IH[OF this] show ?case
    by (simp add: copyModelUsage_def a Let_def split_beta fst_new)
qed

lemma usageInv_newUsageRecord:
  assumes "frame n h0 h"
  shows "usageInv n h0 (fst (newUsageRecord [] h)) (snd (newUsageRecord [] h))"
  using frame_new(8)[OF assms, of "[]"] frame_nextRef[OF assms]
  by (simp add: usageInv_def fst_new) (simp add: storeNew)

lemma rebuildDailyActivityS_frame_aux:
  "frame n h0 h \<Longrightarrow>
   frame n h0 (snd (fold (\<lambda>(date, v) (es, h).
                    let (e, h') = newActivityEntry
                                    \<lparr>daDate = date, daMessageCount = acMessageCount (countsAt h v),
                                     daSessionCount = acSessionCount (countsAt h v),
                                     daToolCallCount = acToolCallCount (countsAt h v)\<rparr> h
                    in (es @ [e], h')) am (es, h)))"
proof (induction am arbitrary: es h)
  case Nil
  then show ?case by simp
next
  case (Cons a am)
  obtain d v where a: "a = (d, v)" by (cases a)
  from Cons.prems have "frame n h0 (snd (newActivityEntry
           \<lparr>daDate = d, daMessageCount = acMessageCount (countsAt h v),
            daSessionCount = acSessionCount (countsAt h v),
            daToolCallCount = acToolCallCount (countsAt h v)\<rparr> h))"
    by (rule frame_new)
  from Cons.IH[OF this] show ?case by (simp add: a Let_def split_beta)
qed

lemma rebuildDailyActivityS_frame:
  "frame n h0 h \<Longrightarrow> frame n h0 (snd (rebuildDailyActivityS am h))"
  unfolding rebuildDailyActivityS_def
  using rebuildDailyActivityS_frame_aux[of n h0 h am "[]"]
  by (simp add: Let_def split_beta frame_new)

lemma rebuildDailyModelTokensS_frame_aux:
  "frame n h0 h \<Longrightarrow>
   frame n h0 (snd (fold (\<lambda>(date, tokens) (es, h).
                    let (e, h') = newTokensEntry (date, tokens) h in (es @ [e], h'))
                 mtm (es, h)))"
proof (induction mtm arbitrary: es h)
  case Nil
  then show ?case by simp
next
  case (Cons a mtm)
  obtain d t where a: "a = (d, t)" by (cases a)
  from Cons.prems have "frame n h0 (snd (newTokensEntry (d, t) h))"
    by (rule frame_new)
  from Cons.IH[OF this] show ?case by (simp add: a Let_def split_beta)
qed

lemma rebuildDailyModelTokensS_frame:
  "frame n h0 h \<Longrightarrow> frame n h0 (snd (rebuildDailyModelTokensS mtm h))"
  unfolding rebuildDailyModelTokensS_def
  using rebuildDailyModelTokensS_frame_aux[of n h0 h mtm "[]"]
  by (simp add: Let_def split_beta frame_new)

text \<open>The whole function keeps every object that existed before the call as it was.\<close>

lemma mergeRecentSessionsS_unfold:
  assumes "recentSessions (extractDateString (soLastComputedDate (statsAt h statsRef))) sessions \<noteq> []"
  shows "\<exists>(lr::LoopRefs) h9 dailyActivityRef dailyModelTokensRef total.
           frame (nextRef h) h h9
         \<and> mergeRecentSessionsS (Inr sessions) pd hk statsRef h
             = Inr (newStats
                      ((statsAt h9 statsRef)
                         \<lparr>soDailyActivity := dailyActivityRef,
                          soDailyModelTokens := dailyModelTokensRef,
                          soModelUsage := lrModelUsage lr,
                          soTotalSessions := total,
                          soTotalMessages := soTotalMessages (statsAt h9 statsRef) + lrMessages lr,
                          soLongestSession := lrLongest lr,
                          soHourCounts := lrHourCounts lr\<rparr>) h9)"
proof -
  let ?n = "nextRef h"
  let ?recent = "recentSessions (extractDateString (soLastComputedDate (statsAt h statsRef))) sessions"
  let ?dm = "parseDetailsInBatches pd ?recent"
  let ?c1 = "copyDailyActivity (arrayAt h (soDailyActivity (statsAt h statsRef))) h"
  let ?h1 = "snd ?c1"
  let ?c2 = "copyDailyModelTokens (arrayAt ?h1 (soDailyModelTokens (statsAt ?h1 statsRef))) ?h1"
  let ?h2 = "snd ?c2"
  let ?c3 = "newNumberRecord (numberRecordAt ?h2 (soHourCounts (statsAt ?h2 statsRef))) ?h2"
  let ?h3 = "snd ?c3"
  let ?c4 = "newUsageRecord [] ?h3"
  let ?h4 = "snd ?c4"
  let ?h5 = "copyModelUsage (usageRecordAt ?h4 (soModelUsage (statsAt ?h4 statsRef))) (fst ?c4) ?h4"
  let ?c6 = "newLongest (longestAt ?h5 (soLongestSession (statsAt ?h5 statsRef))) ?h5"
  let ?h6 = "snd ?c6"
  let ?lr0 = "\<lparr>lrActivityMap = fst ?c1, lrModelTokensMap = fst ?c2,
               lrModelUsage = fst ?c4, lrHourCounts = fst ?c3,
               lrMessages = 0, lrLongest = fst ?c6\<rparr>"
  let ?c7 = "fold (sessionStepS ?dm hk) ?recent (?lr0, ?h6)"
  let ?c8 = "rebuildDailyActivityS (lrActivityMap (fst ?c7)) (snd ?c7)"
  let ?c9 = "rebuildDailyModelTokensS (lrModelTokensMap (fst ?c7)) (snd ?c8)"
  have f0: "frame ?n h h" by (rule frame_refl)
  have f1: "frame ?n h ?h1" and a1: "\<forall>p\<in>set (fst ?c1). ?n \<le> snd p"
    using copyDailyActivity_inv[OF f0] by simp_all
  have f2: "frame ?n h ?h2" and a2: "\<forall>p\<in>set (fst ?c2). ?n \<le> snd p"
    using copyDailyModelTokens_inv[OF f1] by simp_all
  have f3: "frame ?n h ?h3" using f2 by (rule frame_new)
  have a3: "?n \<le> fst ?c3" using frame_nextRef[OF f2] by (simp add: fst_new)
  have u4: "usageInv ?n h (fst ?c4) ?h4" using f3 by (rule usageInv_newUsageRecord)
  have u5: "usageInv ?n h (fst ?c4) ?h5" using u4 by (rule copyModelUsage_inv)
  have u6: "usageInv ?n h (lrModelUsage ?lr0) ?h6" using usageInv_new(3)[OF u5] by simp
  have l6: "localFresh ?n ?lr0" using a1 a2 a3 by (simp add: localFresh_def)
  have u7: "usageInv ?n h (lrModelUsage ?lr0) (snd ?c7)"
    using fold_sessionStepS_inv[OF u6 l6] by simp
  have f7: "frame ?n h (snd ?c7)" using u7 by (rule usageInv_frame)
  have f8: "frame ?n h (snd ?c8)" using f7 by (rule rebuildDailyActivityS_frame)
  have f9: "frame ?n h (snd ?c9)" using f8 by (rule rebuildDailyModelTokensS_frame)
  have eq: "mergeRecentSessionsS (Inr sessions) pd hk statsRef h
             = Inr (newStats
                      ((statsAt (snd ?c9) statsRef)
                         \<lparr>soDailyActivity := fst ?c8,
                          soDailyModelTokens := fst ?c9,
                          soModelUsage := lrModelUsage (fst ?c7),
                          soTotalSessions := soTotalSessions (statsAt ?h6 statsRef) + int (length ?recent),
                          soTotalMessages := soTotalMessages (statsAt (snd ?c9) statsRef) + lrMessages (fst ?c7),
                          soLongestSession := lrLongest (fst ?c7),
                          soHourCounts := lrHourCounts (fst ?c7)\<rparr>) (snd ?c9))"
    using assms by (simp add: mergeRecentSessionsS_def Let_def split_beta)
  show ?thesis
    apply (rule exI[where x="fst ?c7"])
    apply (rule exI[where x="snd ?c9"])
    apply (rule exI[where x="fst ?c8"])
    apply (rule exI[where x="fst ?c9"])
    apply (rule exI[where x="soTotalSessions (statsAt ?h6 statsRef) + int (length ?recent)"])
    apply (rule conjI)
     apply (rule f9)
    apply (rule eq)
    done
qed

lemma sameObjectsBelow_stats:
  "sameObjectsBelow n h h' \<Longrightarrow> a < n \<Longrightarrow> statsAt h' a = statsAt h a"
  by (simp add: sameObjectsBelow_def)


section \<open>The store: what the objects stand for\<close>

lemma map_of_absMap: "map_of (absMap f m) k = map_option f (map_of m k)"
  by (induction m) (auto simp: absMap_def)

lemma getOr_absMap:
  "getOr (absMap f m) k d = (case map_of m k of Some r \<Rightarrow> f r | None \<Rightarrow> d)"
  by (simp add: getOr_def map_of_absMap split: option.splits)

lemma absMap_update: "absMap f (AList.update k r m) = AList.update k (f r) (absMap f m)"
  by (induction m) (auto simp: absMap_def)

lemma absMap_Nil [simp]: "absMap f [] = []"
  by (simp add: absMap_def)

lemma absMap_other:
  "\<forall>p\<in>set m. snd p \<noteq> r \<Longrightarrow> absMap (f(r := x)) m = absMap f m"
  by (induction m) (auto simp: absMap_def)

lemma sepMap_mono: "sepMap n m \<Longrightarrow> n \<le> n' \<Longrightarrow> sepMap n' m"
  by (auto simp: sepMap_def)

lemma sepMap_Nil [simp]: "sepMap n []"
  by (simp add: sepMap_def)

lemma sepMap_fresh_other: "sepMap n m \<Longrightarrow> n \<le> r \<Longrightarrow> \<forall>p\<in>set m. snd p \<noteq> r"
  by (auto simp: sepMap_def)

lemma update_values_fresh:
  "r \<notin> snd ` set m \<Longrightarrow> distinct (map snd m) \<Longrightarrow> map_of m k = None \<Longrightarrow>
   distinct (map snd (AList.update k r m))"
proof (induction m)
  case Nil
  then show ?case by simp
next
  case (Cons a m)
  then have "map_of m k = None" "fst a \<noteq> k" by (auto split: if_splits)
  moreover have "snd ` set (AList.update k r m) \<subseteq> insert r (snd ` set m)"
    by (rule snd_update_subset)
  ultimately show ?case using Cons by (auto simp: image_iff)
qed

lemma sepMap_insert_fresh:
  assumes "sepMap n m" and "map_of m k = None"
  shows "sepMap (Suc n) (AList.update k n m)"
proof -
  have d: "distinct (map fst m)" "distinct (map snd m)" and b: "\<forall>p\<in>set m. snd p < n"
    using assms(1) by (simp_all add: sepMap_def)
  have "n \<notin> snd ` set m" using b by auto
  then have "distinct (map snd (AList.update k n m))"
    using d(2) assms(2) by (rule update_values_fresh)
  moreover have "distinct (map fst (AList.update k n m))"
    using d(1) by (rule distinct_update)
  moreover have "\<forall>p\<in>set (AList.update k n m). snd p < Suc n"
  proof
    fix p assume "p \<in> set (AList.update k n m)"
    then have "snd p \<in> insert n (snd ` set m)"
      using snd_update_subset[of k n m] by blast
    with b show "snd p < Suc n" by auto
  qed
  ultimately show ?thesis by (simp add: sepMap_def)
qed

text \<open>Writing to the object a key refers to changes that key's entry, and no other.\<close>

lemma absMap_write_existing:
  assumes "sepMap n m" and "map_of m k = Some r"
  shows "absMap (f(r := x)) m = AList.update k x (absMap f m)"
proof -
  have d: "distinct (map fst m)" "distinct (map snd m)"
    using assms(1) by (simp_all add: sepMap_def)
  from d assms(2) show ?thesis
  proof (induction m)
    case Nil
    then show ?case by simp
  next
    case (Cons a m)
    show ?case
    proof (cases "fst a = k")
      case True
      with Cons.prems have r: "snd a = r" by simp
      have "snd a \<notin> snd ` set m" using Cons.prems(2) by simp
      with r have "\<forall>p\<in>set m. snd p \<noteq> r" by (metis imageI)
      then have "absMap (f(r := x)) m = absMap f m" by (rule absMap_other)
      with True r show ?thesis by (simp add: absMap_def)
    next
      case False
      with Cons.prems have m: "map_of m k = Some r" by simp
      then have "(k, r) \<in> set m" by (rule map_of_SomeD)
      then have "r \<in> snd ` set m" by force
      with Cons.prems have "snd a \<noteq> r" by auto
      moreover have "absMap (f(r := x)) m = AList.update k x (absMap f m)"
        using Cons.prems m by (intro Cons.IH) simp_all
      ultimately show ?thesis using False by (simp add: absMap_def)
    qed
  qed
qed

text \<open>The token loop of a day, as one assignment to the day's record.\<close>

lemma setNumberRecord_same: "setNumberRecord r (numberRecordAt h r) h = h"
  by (simp add: setNumberRecord_def)

lemma setNumberRecord_twice:
  "setNumberRecord r v (setNumberRecord r v' h) = setNumberRecord r v h"
  by (simp add: setNumberRecord_def)

lemma numberRecordAt_set [simp]:
  "numberRecordAt (setNumberRecord r v h) = (numberRecordAt h)(r := v)"
  by (simp add: setNumberRecord_def)

lemma addDayTokensS_eq:
  "addDayTokensS tbm r h = setNumberRecord r (addDayTokens tbm (numberRecordAt h r)) h"
proof (induction tbm arbitrary: h)
  case Nil
  then show ?case by (simp add: addDayTokensS_def addDayTokens_def setNumberRecord_same)
next
  case (Cons a tbm)
  obtain m u where a: "a = (m, u)" by (cases a)
  let ?v = "AList.update m (getOr (numberRecordAt h r) m 0 + (inputTokens u + outputTokens u))
              (numberRecordAt h r)"
  have "addDayTokensS (a # tbm) r h = addDayTokensS tbm r (setNumberRecord r ?v h)"
    by (simp add: addDayTokensS_def a Let_def)
  also have "\<dots> = setNumberRecord r (addDayTokens tbm ?v) h"
    by (simp add: Cons.IH setNumberRecord_twice)
  also have "addDayTokens tbm ?v = addDayTokens (a # tbm) (numberRecordAt h r)"
    by (simp add: a addDayTokens_Cons)
  finally show ?case .
qed

text \<open>The usage loop against \<open>addModelUsage\<close>: one model, then all of them.\<close>

lemma addModelUsage_Cons:
  "addModelUsage ((m, u) # tbm) mu =
     addModelUsage tbm
       (AList.update m
          ((getOr mu m zeroUsage)
             \<lparr>inputTokens := inputTokens (getOr mu m zeroUsage) + inputTokens u,
              outputTokens := outputTokens (getOr mu m zeroUsage) + outputTokens u,
              cacheReadInputTokens :=
                cacheReadInputTokens (getOr mu m zeroUsage) + cacheReadInputTokens u,
              cacheCreationInputTokens :=
                cacheCreationInputTokens (getOr mu m zeroUsage) + cacheCreationInputTokens u\<rparr>)
          mu)"
  by (simp add: addModelUsage_def Let_def)

lemma usageStepS_tables:
  "countsAt (usageStepS m u mu h) = countsAt h"
  "numberRecordAt (usageStepS m u mu h) = numberRecordAt h"
  "longestAt (usageStepS m u mu h) = longestAt h"
  "statsAt (usageStepS m u mu h) = statsAt h"
  "arrayAt (usageStepS m u mu h) = arrayAt h"
  "activityEntryAt (usageStepS m u mu h) = activityEntryAt h"
  "tokensEntryAt (usageStepS m u mu h) = tokensEntryAt h"
  "nextRef h \<le> nextRef (usageStepS m u mu h)"
  by (simp_all add: usageStepS_def Let_def split_beta storeNew storeSet split: option.splits)

lemma usageStepS_sim:
  assumes "sepMap (nextRef h) (usageRecordAt h mu)"
  shows "absMap (usageAt (usageStepS m u mu h)) (usageRecordAt (usageStepS m u mu h) mu)
           = addModelUsage [(m, u)] (absMap (usageAt h) (usageRecordAt h mu))
       \<and> sepMap (nextRef (usageStepS m u mu h)) (usageRecordAt (usageStepS m u mu h) mu)"
proof (cases "map_of (usageRecordAt h mu) m")
  case None
  let ?e = "nextRef h"
  let ?new = "zeroUsage\<lparr>inputTokens := inputTokens zeroUsage + inputTokens u,
                        outputTokens := outputTokens zeroUsage + outputTokens u,
                        cacheReadInputTokens := cacheReadInputTokens zeroUsage + cacheReadInputTokens u,
                        cacheCreationInputTokens :=
                          cacheCreationInputTokens zeroUsage + cacheCreationInputTokens u\<rparr>"
  have rec: "usageRecordAt (usageStepS m u mu h) mu = AList.update m ?e (usageRecordAt h mu)"
    and us: "usageAt (usageStepS m u mu h) = (usageAt h)(?e := ?new)"
    and nx: "nextRef (usageStepS m u mu h) = Suc (nextRef h)"
    using None by (simp_all add: usageStepS_def Let_def storeNew storeSet)
  have other: "\<forall>p\<in>set (usageRecordAt h mu). snd p \<noteq> ?e"
    using assms by (rule sepMap_fresh_other) simp
  have "absMap ((usageAt h)(?e := ?new)) (AList.update m ?e (usageRecordAt h mu))
      = AList.update m ?new (absMap (usageAt h) (usageRecordAt h mu))"
    by (simp add: absMap_update absMap_other[OF other])
  moreover have "getOr (absMap (usageAt h) (usageRecordAt h mu)) m zeroUsage = zeroUsage"
    using None by (simp add: getOr_absMap)
  ultimately show ?thesis
    using sepMap_insert_fresh[OF assms None]
    by (simp add: rec us nx addModelUsage_Cons) (simp add: addModelUsage_def)
next
  case (Some e)
  let ?old = "usageAt h e"
  let ?new = "?old\<lparr>inputTokens := inputTokens ?old + inputTokens u,
                        outputTokens := outputTokens ?old + outputTokens u,
                        cacheReadInputTokens := cacheReadInputTokens ?old + cacheReadInputTokens u,
                        cacheCreationInputTokens :=
                          cacheCreationInputTokens ?old + cacheCreationInputTokens u\<rparr>"
  have tr: "AList.update m e (usageRecordAt h mu) = usageRecordAt h mu"
    using Some by (rule update_triv)
  have rec: "usageRecordAt (usageStepS m u mu h) mu = usageRecordAt h mu"
    and us: "usageAt (usageStepS m u mu h) = (usageAt h)(e := ?new)"
    and nx: "nextRef (usageStepS m u mu h) = nextRef h"
    using Some tr by (simp_all add: usageStepS_def Let_def storeNew storeSet)
  have "absMap ((usageAt h)(e := ?new)) (usageRecordAt h mu)
      = AList.update m ?new (absMap (usageAt h) (usageRecordAt h mu))"
    using assms Some by (rule absMap_write_existing)
  moreover have "getOr (absMap (usageAt h) (usageRecordAt h mu)) m zeroUsage = ?old"
    using Some by (simp add: getOr_absMap)
  ultimately show ?thesis
    using assms by (simp add: rec us nx addModelUsage_Cons) (simp add: addModelUsage_def)
qed

lemma addModelUsage_append1:
  "addModelUsage tbm (addModelUsage [a] mu) = addModelUsage (a # tbm) mu"
  by (simp add: addModelUsage_def)

lemma addModelUsageS_tables:
  "countsAt (addModelUsageS tbm mu h) = countsAt h
   \<and> numberRecordAt (addModelUsageS tbm mu h) = numberRecordAt h
   \<and> longestAt (addModelUsageS tbm mu h) = longestAt h
   \<and> statsAt (addModelUsageS tbm mu h) = statsAt h
   \<and> arrayAt (addModelUsageS tbm mu h) = arrayAt h
   \<and> activityEntryAt (addModelUsageS tbm mu h) = activityEntryAt h
   \<and> tokensEntryAt (addModelUsageS tbm mu h) = tokensEntryAt h
   \<and> nextRef h \<le> nextRef (addModelUsageS tbm mu h)"
proof (induction tbm arbitrary: h)
  case Nil
  then show ?case by (simp add: addModelUsageS_def)
next
  case (Cons a tbm)
  obtain m u where a: "a = (m, u)" by (cases a)
  from Cons.IH[of "usageStepS m u mu h"] usageStepS_tables[where m=m and u=u and mu=mu and h=h]
  show ?case unfolding a addModelUsageS_Cons by simp
qed

lemma addModelUsageS_sim:
  assumes "sepMap (nextRef h) (usageRecordAt h mu)"
  shows "absMap (usageAt (addModelUsageS tbm mu h)) (usageRecordAt (addModelUsageS tbm mu h) mu)
           = addModelUsage tbm (absMap (usageAt h) (usageRecordAt h mu))
       \<and> sepMap (nextRef (addModelUsageS tbm mu h)) (usageRecordAt (addModelUsageS tbm mu h) mu)"
  using assms
proof (induction tbm arbitrary: h)
  case Nil
  then show ?case by (simp add: addModelUsageS_def addModelUsage_def)
next
  case (Cons a tbm)
  obtain m u where a: "a = (m, u)" by (cases a)
  from usageStepS_sim[OF Cons.prems, where m=m and u=u]
  have s: "absMap (usageAt (usageStepS m u mu h)) (usageRecordAt (usageStepS m u mu h) mu)
           = addModelUsage [(m, u)] (absMap (usageAt h) (usageRecordAt h mu))"
    and p: "sepMap (nextRef (usageStepS m u mu h)) (usageRecordAt (usageStepS m u mu h) mu)"
    by simp_all
  from Cons.IH[OF p] s show ?case
    unfolding a addModelUsageS_Cons by (simp add: addModelUsage_append1)
qed

text \<open>What each part of an iteration leaves in the tables.\<close>

lemma currentCounts_cases:
  "(map_of am date = None \<and> currentCounts am date h = newCounts zeroCounts h)
   \<or> (\<exists>c. map_of am date = Some c \<and> currentCounts am date h = (c, h))"
  by (cases "map_of am date") (simp_all add: currentCounts_def)

lemma withDetailS_tables:
  fixes lr :: LoopRefs and date :: string and h :: Store and d :: SessionDetail and cur :: ref
  defines "dt \<equiv> (case map_of (lrModelTokensMap lr) date of Some t \<Rightarrow> t | None \<Rightarrow> nextRef h)"
  defines "old \<equiv> (case map_of (lrModelTokensMap lr) date of
                      Some t \<Rightarrow> numberRecordAt h t | None \<Rightarrow> [])"
  defines "p \<equiv> withDetailS d date cur lr h"
  shows "fst p = lr\<lparr>lrModelTokensMap := AList.update date dt (lrModelTokensMap lr),
                    lrMessages := lrMessages lr + int (length (turns d))\<rparr>"
    and "countsAt (snd p) = (countsAt h)(cur := (countsAt h cur)
            \<lparr>acMessageCount := acMessageCount (countsAt h cur) + int (length (turns d)),
             acToolCallCount := acToolCallCount (countsAt h cur) + toolCallTotal d\<rparr>)"
    and "numberRecordAt (snd p) = (numberRecordAt h)(dt := addDayTokens (tokensByModel d) old)"
    and "longestAt (snd p) = longestAt h"
    and "(case map_of (lrModelTokensMap lr) date of Some t \<Rightarrow> nextRef h | None \<Rightarrow> Suc (nextRef h))
           \<le> nextRef (snd p)"
proof -
  let ?h1 = "setCounts cur ((countsAt h cur)\<lparr>acMessageCount :=
                 acMessageCount (countsAt h cur) + int (length (turns d))\<rparr>) h"
  let ?h2 = "setCounts cur ((countsAt ?h1 cur)\<lparr>acToolCallCount :=
                 acToolCallCount (countsAt ?h1 cur) + toolCallTotal d\<rparr>) ?h1"
  let ?t = "currentDayTokens (lrModelTokensMap lr) date ?h2"
  let ?h4 = "addDayTokensS (tokensByModel d) (fst ?t) (snd ?t)"
  have p: "p = (lr\<lparr>lrModelTokensMap := AList.update date (fst ?t) (lrModelTokensMap lr),
                   lrMessages := lrMessages lr + int (length (turns d))\<rparr>,
                addModelUsageS (tokensByModel d) (lrModelUsage lr) ?h4)"
    by (simp add: p_def withDetailS_def Let_def split_beta)
  have t: "fst ?t = dt"
    by (simp add: dt_def currentDayTokens_def storeNew storeSet split: option.splits)
  note tabs = addModelUsageS_tables[of "tokensByModel d" "lrModelUsage lr" ?h4]
  show "fst p = lr\<lparr>lrModelTokensMap := AList.update date dt (lrModelTokensMap lr),
                    lrMessages := lrMessages lr + int (length (turns d))\<rparr>"
    by (simp add: p t)
  show "countsAt (snd p) = (countsAt h)(cur := (countsAt h cur)
            \<lparr>acMessageCount := acMessageCount (countsAt h cur) + int (length (turns d)),
             acToolCallCount := acToolCallCount (countsAt h cur) + toolCallTotal d\<rparr>)"
    using tabs
    by (simp add: p addDayTokensS_eq)
       (simp add: currentDayTokens_def storeNew storeSet split: option.splits)
  show "numberRecordAt (snd p) = (numberRecordAt h)(dt := addDayTokens (tokensByModel d) old)"
    using tabs
    by (simp add: p addDayTokensS_eq)
       (simp add: dt_def old_def currentDayTokens_def storeNew storeSet split: option.splits)
  show "longestAt (snd p) = longestAt h"
    using tabs
    by (simp add: p addDayTokensS_eq)
       (simp add: currentDayTokens_def storeNew storeSet split: option.splits)
  show "(case map_of (lrModelTokensMap lr) date of Some t \<Rightarrow> nextRef h | None \<Rightarrow> Suc (nextRef h))
           \<le> nextRef (snd p)"
    using tabs
    by (simp add: p addDayTokensS_eq)
       (simp add: currentDayTokens_def storeNew storeSet split: option.splits)
qed

lemma withDetailS_usage:
  fixes lr :: LoopRefs and date :: string and h :: Store and d :: SessionDetail and cur :: ref
  assumes "sepMap (nextRef h) (usageRecordAt h (lrModelUsage lr))"
  defines "p \<equiv> withDetailS d date cur lr h"
  shows "absMap (usageAt (snd p)) (usageRecordAt (snd p) (lrModelUsage lr))
           = addModelUsage (tokensByModel d) (absMap (usageAt h) (usageRecordAt h (lrModelUsage lr)))
       \<and> sepMap (nextRef (snd p)) (usageRecordAt (snd p) (lrModelUsage lr))"
proof -
  let ?mu = "lrModelUsage lr"
  let ?h1 = "setCounts cur ((countsAt h cur)\<lparr>acMessageCount :=
                 acMessageCount (countsAt h cur) + int (length (turns d))\<rparr>) h"
  let ?h2 = "setCounts cur ((countsAt ?h1 cur)\<lparr>acToolCallCount :=
                 acToolCallCount (countsAt ?h1 cur) + toolCallTotal d\<rparr>) ?h1"
  let ?t = "currentDayTokens (lrModelTokensMap lr) date ?h2"
  let ?h4 = "addDayTokensS (tokensByModel d) (fst ?t) (snd ?t)"
  have p: "snd p = addModelUsageS (tokensByModel d) ?mu ?h4"
    by (simp add: p_def withDetailS_def Let_def split_beta)
  have r: "usageRecordAt ?h4 = usageRecordAt h" and u: "usageAt ?h4 = usageAt h"
    and n: "nextRef h \<le> nextRef ?h4"
    by (simp_all add: addDayTokensS_eq currentDayTokens_def storeNew storeSet split: option.splits)
  have "sepMap (nextRef ?h4) (usageRecordAt ?h4 ?mu)"
    using assms(1) n unfolding r by (rule sepMap_mono)
  from addModelUsageS_sim[OF this, of "tokensByModel d"] show ?thesis
    unfolding p by (simp only: r u)
qed

lemma withoutDetailS_tables:
  fixes lr :: LoopRefs and date :: string and h :: Store and s :: SessionSummaryWithPath
    and cur :: ref
  defines "p \<equiv> withoutDetailS s date cur lr h"
  shows "fst p = lr\<lparr>lrModelTokensMap :=
                      (case map_of (lrModelTokensMap lr) date of
                         Some t \<Rightarrow> lrModelTokensMap lr
                       | None \<Rightarrow> AList.update date (nextRef h) (lrModelTokensMap lr)),
                    lrMessages := lrMessages lr + messageCount s\<rparr>"
    and "countsAt (snd p) = (countsAt h)(cur := (countsAt h cur)
            \<lparr>acMessageCount := acMessageCount (countsAt h cur) + messageCount s\<rparr>)"
    and "numberRecordAt (snd p) =
           (case map_of (lrModelTokensMap lr) date of
              Some t \<Rightarrow> numberRecordAt h
            | None \<Rightarrow> (numberRecordAt h)(nextRef h := []))"
    and "longestAt (snd p) = longestAt h"
    and "usageAt (snd p) = usageAt h"
    and "usageRecordAt (snd p) = usageRecordAt h"
    and "nextRef (snd p) =
           (case map_of (lrModelTokensMap lr) date of Some t \<Rightarrow> nextRef h | None \<Rightarrow> Suc (nextRef h))"
  by (simp_all add: p_def withoutDetailS_def Let_def split_beta storeNew storeSet
      split: option.splits)

lemma longestStepS_tables:
  fixes lr :: LoopRefs
  shows "longestAt (snd (longestStepS detail s lr h)) (lrLongest (fst (longestStepS detail s lr h)))
           = longestStep detail s (longestAt h (lrLongest lr))"
    and "(fst (longestStepS detail s lr h))\<lparr>lrLongest := x\<rparr> = lr\<lparr>lrLongest := x\<rparr>"
    and "countsAt (snd (longestStepS detail s lr h)) = countsAt h"
    and "numberRecordAt (snd (longestStepS detail s lr h)) = numberRecordAt h"
    and "usageAt (snd (longestStepS detail s lr h)) = usageAt h"
    and "usageRecordAt (snd (longestStepS detail s lr h)) = usageRecordAt h"
    and "nextRef h \<le> nextRef (snd (longestStepS detail s lr h))"
  by (simp_all add: longestStepS_def longestStep_def Let_def split_beta storeNew)

lemma longestStepS_fields:
  fixes lr :: LoopRefs
  shows "lrActivityMap (fst (longestStepS detail s lr h)) = lrActivityMap lr"
    and "lrModelTokensMap (fst (longestStepS detail s lr h)) = lrModelTokensMap lr"
    and "lrModelUsage (fst (longestStepS detail s lr h)) = lrModelUsage lr"
    and "lrHourCounts (fst (longestStepS detail s lr h)) = lrHourCounts lr"
    and "lrMessages (fst (longestStepS detail s lr h)) = lrMessages lr"
  by (simp_all add: longestStepS_def Let_def split_beta)

text \<open>Get the object of a key or make one, write to it, and store it under the key.\<close>

lemma absMap_get_or_new:
  assumes "sepMap n m"
  shows "absMap (f((case map_of m k of Some c \<Rightarrow> c | None \<Rightarrow> n) := x))
           (AList.update k (case map_of m k of Some c \<Rightarrow> c | None \<Rightarrow> n) m)
         = AList.update k x (absMap f m)"
    and "sepMap (case map_of m k of Some c \<Rightarrow> n | None \<Rightarrow> Suc n)
           (AList.update k (case map_of m k of Some c \<Rightarrow> c | None \<Rightarrow> n) m)"
proof -
  show "absMap (f((case map_of m k of Some c \<Rightarrow> c | None \<Rightarrow> n) := x))
           (AList.update k (case map_of m k of Some c \<Rightarrow> c | None \<Rightarrow> n) m)
         = AList.update k x (absMap f m)"
  proof (cases "map_of m k")
    case None
    have "\<forall>p\<in>set m. snd p \<noteq> n" using assms by (rule sepMap_fresh_other) simp
    then have "absMap (f(n := x)) m = absMap f m" by (rule absMap_other)
    with None show ?thesis by (simp add: absMap_update)
  next
    case (Some c)
    with absMap_write_existing[OF assms Some, of f x] update_triv[OF Some]
    show ?thesis by simp
  qed
  show "sepMap (case map_of m k of Some c \<Rightarrow> n | None \<Rightarrow> Suc n)
           (AList.update k (case map_of m k of Some c \<Rightarrow> c | None \<Rightarrow> n) m)"
  proof (cases "map_of m k")
    case None
    with sepMap_insert_fresh[OF assms None] show ?thesis by simp
  next
    case (Some c)
    with assms update_triv[OF Some] show ?thesis by simp
  qed
qed

lemma sepMap_bound: "sepMap n m \<Longrightarrow> p \<in> set m \<Longrightarrow> snd p < n"
  by (simp add: sepMap_def)

lemma get_or_new_bound:
  "sepMap n m \<Longrightarrow> (case map_of m k of Some c \<Rightarrow> c | None \<Rightarrow> n)
     < (case map_of m k of Some c \<Rightarrow> n | None \<Rightarrow> Suc n)"
  by (cases "map_of m k") (auto dest: map_of_SomeD sepMap_bound)

lemma currentCounts_tables:
  shows "fst (currentCounts am date h) = (case map_of am date of Some c \<Rightarrow> c | None \<Rightarrow> nextRef h)"
    and "countsAt (snd (currentCounts am date h)) (fst (currentCounts am date h))
           = getOr (absMap (countsAt h) am) date zeroCounts"
    and "(countsAt (snd (currentCounts am date h)))(fst (currentCounts am date h) := x)
           = (countsAt h)(fst (currentCounts am date h) := x)"
    and "numberRecordAt (snd (currentCounts am date h)) = numberRecordAt h"
    and "usageAt (snd (currentCounts am date h)) = usageAt h"
    and "usageRecordAt (snd (currentCounts am date h)) = usageRecordAt h"
    and "longestAt (snd (currentCounts am date h)) = longestAt h"
    and "nextRef (snd (currentCounts am date h))
           = (case map_of am date of Some c \<Rightarrow> nextRef h | None \<Rightarrow> Suc (nextRef h))"
  by (simp_all add: currentCounts_def getOr_absMap storeNew split: option.splits)

text \<open>An iteration for a session with a detail, against the loop body of the function.\<close>

lemma sessionStepS_sim_Some:
  fixes lr :: LoopRefs
  assumes sep: "sepLoop h lr" and d: "dm (sessionId s) = Some d"
  shows "absLoop (snd (sessionStepS dm hk s (lr, h))) (fst (sessionStepS dm hk s (lr, h)))
           = sessionStep dm hk s (absLoop h lr)
       \<and> sepLoop (snd (sessionStepS dm hk s (lr, h))) (fst (sessionStepS dm hk s (lr, h)))"
proof -
  let ?date = "sessionDate s"
  let ?am = "lrActivityMap lr"
  let ?mtm = "lrModelTokensMap lr"
  let ?mu = "lrModelUsage lr"
  let ?hc = "lrHourCounts lr"
  let ?n = "nextRef h"
  let ?n1 = "case map_of ?am ?date of Some c \<Rightarrow> ?n | None \<Rightarrow> Suc ?n"
  let ?c0 = "getOr (absMap (countsAt h) ?am) ?date zeroCounts"
  let ?dt = "case map_of ?mtm ?date of Some t \<Rightarrow> t | None \<Rightarrow> ?n1"
  let ?n3 = "case map_of ?mtm ?date of Some t \<Rightarrow> ?n1 | None \<Rightarrow> Suc ?n1"
  let ?old = "case map_of ?mtm ?date of Some t \<Rightarrow> numberRecordAt h t | None \<Rightarrow> []"
  let ?W = "?c0\<lparr>acSessionCount := acSessionCount ?c0 + 1,
                 acMessageCount := acMessageCount ?c0 + int (length (turns d)),
                 acToolCallCount := acToolCallCount ?c0 + toolCallTotal d\<rparr>"
  define cur where "cur = fst (currentCounts ?am ?date h)"
  define h1 where "h1 = snd (currentCounts ?am ?date h)"
  define h2 where "h2 = setCounts cur ((countsAt h1 cur)\<lparr>acSessionCount := acSessionCount (countsAt h1 cur) + 1\<rparr>) h1"
  define r3 where "r3 = withDetailS d ?date cur lr h2"
  define lr4 where "lr4 = (fst r3)\<lparr>lrActivityMap := AList.update ?date cur (lrActivityMap (fst r3))\<rparr>"
  define h4 where "h4 = setNumberRecord (lrHourCounts lr4)
               (updateHourCounts hk (numberRecordAt (snd r3) (lrHourCounts lr4)) s) (snd r3)"
  define p where "p = longestStepS (Some d) s lr4 h4"
  have step: "sessionStepS dm hk s (lr, h) = p"
    unfolding p_def h4_def lr4_def r3_def h2_def h1_def cur_def
    using d by (simp add: sessionStepS_def Let_def split_beta)
  have s_am: "sepMap ?n ?am" and s_mtm: "sepMap ?n ?mtm" and hc: "?hc < ?n"
    and hc_other: "\<forall>p\<in>set ?mtm. snd p \<noteq> ?hc" and s_mu: "sepMap ?n (usageRecordAt h ?mu)"
    using sep by (simp_all add: sepLoop_def)
  have n1: "?n \<le> ?n1" by (simp split: option.splits)
  have n3: "?n1 \<le> ?n3" by (simp split: option.splits)
  have cur_eq: "cur = (case map_of ?am ?date of Some c \<Rightarrow> c | None \<Rightarrow> ?n)"
    unfolding cur_def by (rule currentCounts_tables(1))
  have h2_tabs: "numberRecordAt h2 = numberRecordAt h" "usageAt h2 = usageAt h"
    "usageRecordAt h2 = usageRecordAt h" "longestAt h2 = longestAt h" "nextRef h2 = ?n1"
    unfolding h2_def h1_def by (simp_all add: setCounts_def currentCounts_tables)
  have h2_counts: "countsAt h2 = (countsAt h)(cur := ?c0\<lparr>acSessionCount := acSessionCount ?c0 + 1\<rparr>)"
    unfolding h2_def h1_def cur_def
    using currentCounts_tables(3)[of ?am ?date h]
    by (simp add: setCounts_def currentCounts_tables(2))
  note r3 = withDetailS_tables[where d=d and date="?date" and cur=cur and lr=lr and h=h2,
      folded r3_def]
  have r3_lr: "fst r3 = lr\<lparr>lrModelTokensMap := AList.update ?date ?dt ?mtm,
                    lrMessages := lrMessages lr + int (length (turns d))\<rparr>"
    using r3(1) by (simp add: h2_tabs cong: option.case_cong)
  have r3_counts: "countsAt (snd r3) = (countsAt h)(cur := ?W)"
    using r3(2) by (simp add: h2_counts)
  have r3_num: "numberRecordAt (snd r3) = (numberRecordAt h)(?dt := addDayTokens (tokensByModel d) ?old)"
    using r3(3) by (simp add: h2_tabs cong: option.case_cong)
  have r3_long: "longestAt (snd r3) = longestAt h"
    using r3(4) by (simp add: h2_tabs)
  have r3_next: "?n3 \<le> nextRef (snd r3)"
    using r3(5) by (simp add: h2_tabs cong: option.case_cong)
  have s_mu2: "sepMap (nextRef h2) (usageRecordAt h2 ?mu)"
    using s_mu n1 by (simp add: h2_tabs sepMap_mono)
  from withDetailS_usage[OF s_mu2, of d ?date cur, folded r3_def]
  have r3_usage: "absMap (usageAt (snd r3)) (usageRecordAt (snd r3) ?mu)
           = addModelUsage (tokensByModel d) (absMap (usageAt h) (usageRecordAt h ?mu))"
    and r3_sep: "sepMap (nextRef (snd r3)) (usageRecordAt (snd r3) ?mu)"
    by (simp_all add: h2_tabs)
  have lr4: "lr4 = lr\<lparr>lrActivityMap := AList.update ?date cur ?am,
                        lrModelTokensMap := AList.update ?date ?dt ?mtm,
                        lrMessages := lrMessages lr + int (length (turns d))\<rparr>"
    unfolding lr4_def by (simp add: r3_lr)
  have dt_ne: "?dt \<noteq> ?hc"
  proof (cases "map_of ?mtm ?date")
    case None
    with hc n1 show ?thesis by simp
  next
    case (Some t)
    then have "(?date, t) \<in> set ?mtm" by (rule map_of_SomeD)
    with hc_other Some show ?thesis by force
  qed
  have h4_num: "numberRecordAt h4 =
      (numberRecordAt h)(?dt := addDayTokens (tokensByModel d) ?old,
                         ?hc := updateHourCounts hk (numberRecordAt h ?hc) s)"
    unfolding h4_def using dt_ne by (simp add: lr4 r3_num)
  have h4_tabs: "countsAt h4 = (countsAt h)(cur := ?W)" "longestAt h4 = longestAt h"
    "usageAt h4 = usageAt (snd r3)" "usageRecordAt h4 = usageRecordAt (snd r3)"
    "nextRef h4 = nextRef (snd r3)"
    unfolding h4_def by (simp_all add: setNumberRecord_def r3_counts r3_long)
  note lp = longestStepS_tables[where detail="Some d" and s=s and lr=lr4 and h=h4, folded p_def]
  note lf = longestStepS_fields[where detail="Some d" and s=s and lr=lr4 and h=h4, folded p_def]
  have g1: "absMap ((countsAt h)(cur := ?W)) (AList.update ?date cur ?am)
      = AList.update ?date ?W (absMap (countsAt h) ?am)"
    unfolding cur_eq by (rule absMap_get_or_new(1)[OF s_am])
  have g2: "sepMap ?n1 (AList.update ?date cur ?am)"
    unfolding cur_eq by (rule absMap_get_or_new(2)[OF s_am])
  have a1: "absMap (countsAt (snd p)) (lrActivityMap (fst p))
      = AList.update ?date ?W (absMap (countsAt h) ?am)"
    by (simp add: lp lf h4_tabs) (simp add: lr4 g1)
  have hc_upd: "\<forall>p\<in>set (AList.update ?date ?dt ?mtm). snd p \<noteq> ?hc"
  proof
    fix p assume "p \<in> set (AList.update ?date ?dt ?mtm)"
    then have "snd p \<in> insert ?dt (snd ` set ?mtm)"
      using snd_update_subset[of ?date ?dt ?mtm] by blast
    with dt_ne hc_other show "snd p \<noteq> ?hc" by auto
  qed
  have s_mtm1: "sepMap ?n1 ?mtm" using s_mtm n1 by (rule sepMap_mono)
  have a2: "absMap (numberRecordAt (snd p)) (lrModelTokensMap (fst p))
      = AList.update ?date (addDayTokens (tokensByModel d)
            (getOr (absMap (numberRecordAt h) ?mtm) ?date [])) (absMap (numberRecordAt h) ?mtm)"
  proof -
    have "numberRecordAt (snd p) =
        ((numberRecordAt h)(?dt := addDayTokens (tokensByModel d) ?old))
          (?hc := updateHourCounts hk (numberRecordAt h ?hc) s)"
      by (simp add: lp h4_num)
    moreover have "lrModelTokensMap (fst p) = AList.update ?date ?dt ?mtm"
      by (simp add: lf) (simp add: lr4)
    ultimately have "absMap (numberRecordAt (snd p)) (lrModelTokensMap (fst p))
        = absMap ((numberRecordAt h)(?dt := addDayTokens (tokensByModel d) ?old))
            (AList.update ?date ?dt ?mtm)"
      using absMap_other[OF hc_upd] by simp
    also have "\<dots> = AList.update ?date (addDayTokens (tokensByModel d) ?old)
                       (absMap (numberRecordAt h) ?mtm)"
      by (rule absMap_get_or_new(1)[OF s_mtm1])
    also have "?old = getOr (absMap (numberRecordAt h) ?mtm) ?date []"
      by (simp add: getOr_absMap)
    finally show ?thesis .
  qed
  have mu4: "lrModelUsage (fst p) = ?mu" "lrHourCounts (fst p) = ?hc"
    "lrMessages (fst p) = lrMessages lr + int (length (turns d))"
    "lrLongest lr4 = lrLongest lr"
    by (simp_all add: lf) (simp_all add: lr4)
  have a3: "absMap (usageAt (snd p)) (usageRecordAt (snd p) (lrModelUsage (fst p)))
      = addModelUsage (tokensByModel d) (absMap (usageAt h) (usageRecordAt h ?mu))"
    by (simp add: lp mu4 h4_tabs r3_usage)
  have a4: "numberRecordAt (snd p) (lrHourCounts (fst p))
      = updateHourCounts hk (numberRecordAt h ?hc) s"
    by (simp add: lp mu4 h4_num)
  have a6: "longestAt (snd p) (lrLongest (fst p)) = longestStep (Some d) s (longestAt h (lrLongest lr))"
    by (simp add: lp(1) h4_tabs mu4)
  have abs: "absLoop (snd p) (fst p) = sessionStep dm hk s (absLoop h lr)"
    unfolding absLoop_def using a1 a2 a3 a4 mu4(3) a6 d
    by (simp add: sessionStep_def Let_def)
  have np: "?n3 \<le> nextRef (snd p)"
    using lp(7) r3_next by (simp add: h4_tabs)
  have "?n1 \<le> nextRef (snd p)" using n3 np by (rule order_trans)
  with g2 have b1: "sepMap (nextRef (snd p)) (lrActivityMap (fst p))"
    by (simp add: lf) (simp add: lr4 sepMap_mono)
  have "sepMap ?n3 (AList.update ?date ?dt ?mtm)"
    by (rule absMap_get_or_new(2)[OF s_mtm1])
  with np have b2: "sepMap (nextRef (snd p)) (lrModelTokensMap (fst p))"
    by (simp add: lf) (simp add: lr4 sepMap_mono)
  have b3: "lrHourCounts (fst p) < nextRef (snd p)"
    using hc n1 n3 np by (simp add: mu4)
  have b4: "\<forall>q\<in>set (lrModelTokensMap (fst p)). snd q \<noteq> lrHourCounts (fst p)"
    using hc_upd by (simp add: lf) (simp add: lr4)
  have "nextRef (snd r3) \<le> nextRef (snd p)" using lp(7) by (simp add: h4_tabs)
  with r3_sep have b5: "sepMap (nextRef (snd p)) (usageRecordAt (snd p) (lrModelUsage (fst p)))"
    by (simp add: lp(6) mu4 h4_tabs sepMap_mono)
  show ?thesis
    unfolding step using abs b1 b2 b3 b4 b5 by (simp add: sepLoop_def)
qed

text \<open>An iteration for a session without a detail.\<close>

lemma sessionStepS_sim_None:
  fixes lr :: LoopRefs
  assumes sep: "sepLoop h lr" and d: "dm (sessionId s) = None"
  shows "absLoop (snd (sessionStepS dm hk s (lr, h))) (fst (sessionStepS dm hk s (lr, h)))
           = sessionStep dm hk s (absLoop h lr)
       \<and> sepLoop (snd (sessionStepS dm hk s (lr, h))) (fst (sessionStepS dm hk s (lr, h)))"
proof -
  let ?date = "sessionDate s"
  let ?am = "lrActivityMap lr"
  let ?mtm = "lrModelTokensMap lr"
  let ?mu = "lrModelUsage lr"
  let ?hc = "lrHourCounts lr"
  let ?n = "nextRef h"
  let ?n1 = "case map_of ?am ?date of Some c \<Rightarrow> ?n | None \<Rightarrow> Suc ?n"
  let ?c0 = "getOr (absMap (countsAt h) ?am) ?date zeroCounts"
  let ?n3 = "case map_of ?mtm ?date of Some t \<Rightarrow> ?n1 | None \<Rightarrow> Suc ?n1"
  let ?mtm' = "case map_of ?mtm ?date of Some t \<Rightarrow> ?mtm | None \<Rightarrow> AList.update ?date ?n1 ?mtm"
  let ?num' = "case map_of ?mtm ?date of
                 Some t \<Rightarrow> numberRecordAt h | None \<Rightarrow> (numberRecordAt h)(?n1 := [])"
  let ?W = "?c0\<lparr>acSessionCount := acSessionCount ?c0 + 1,
                 acMessageCount := acMessageCount ?c0 + messageCount s\<rparr>"
  define cur where "cur = fst (currentCounts ?am ?date h)"
  define h1 where "h1 = snd (currentCounts ?am ?date h)"
  define h2 where "h2 = setCounts cur ((countsAt h1 cur)\<lparr>acSessionCount := acSessionCount (countsAt h1 cur) + 1\<rparr>) h1"
  define r3 where "r3 = withoutDetailS s ?date cur lr h2"
  define lr4 where "lr4 = (fst r3)\<lparr>lrActivityMap := AList.update ?date cur (lrActivityMap (fst r3))\<rparr>"
  define h4 where "h4 = setNumberRecord (lrHourCounts lr4)
               (updateHourCounts hk (numberRecordAt (snd r3) (lrHourCounts lr4)) s) (snd r3)"
  define p where "p = longestStepS None s lr4 h4"
  have step: "sessionStepS dm hk s (lr, h) = p"
    unfolding p_def h4_def lr4_def r3_def h2_def h1_def cur_def
    using d by (simp add: sessionStepS_def Let_def split_beta)
  have s_am: "sepMap ?n ?am" and s_mtm: "sepMap ?n ?mtm" and hc: "?hc < ?n"
    and hc_other: "\<forall>p\<in>set ?mtm. snd p \<noteq> ?hc" and s_mu: "sepMap ?n (usageRecordAt h ?mu)"
    using sep by (simp_all add: sepLoop_def)
  have n1: "?n \<le> ?n1" by (simp split: option.splits)
  have n3: "?n1 \<le> ?n3" by (simp split: option.splits)
  have cur_eq: "cur = (case map_of ?am ?date of Some c \<Rightarrow> c | None \<Rightarrow> ?n)"
    unfolding cur_def by (rule currentCounts_tables(1))
  have h2_tabs: "numberRecordAt h2 = numberRecordAt h" "usageAt h2 = usageAt h"
    "usageRecordAt h2 = usageRecordAt h" "longestAt h2 = longestAt h" "nextRef h2 = ?n1"
    unfolding h2_def h1_def by (simp_all add: setCounts_def currentCounts_tables)
  have h2_counts: "countsAt h2 = (countsAt h)(cur := ?c0\<lparr>acSessionCount := acSessionCount ?c0 + 1\<rparr>)"
    unfolding h2_def h1_def cur_def
    using currentCounts_tables(3)[of ?am ?date h]
    by (simp add: setCounts_def currentCounts_tables(2))
  note r3 = withoutDetailS_tables[where s=s and date="?date" and cur=cur and lr=lr and h=h2,
      folded r3_def]
  have r3_lr: "fst r3 = lr\<lparr>lrModelTokensMap := ?mtm', lrMessages := lrMessages lr + messageCount s\<rparr>"
    using r3(1) by (simp add: h2_tabs cong: option.case_cong)
  have r3_counts: "countsAt (snd r3) = (countsAt h)(cur := ?W)"
    using r3(2) by (simp add: h2_counts)
  have r3_num: "numberRecordAt (snd r3) = ?num'"
    using r3(3) by (simp add: h2_tabs cong: option.case_cong)
  have r3_tabs: "longestAt (snd r3) = longestAt h" "usageAt (snd r3) = usageAt h"
    "usageRecordAt (snd r3) = usageRecordAt h"
    using r3(4,5,6) by (simp_all add: h2_tabs)
  have r3_next: "nextRef (snd r3) = ?n3"
    using r3(7) by (simp add: h2_tabs cong: option.case_cong)
  have lr4: "lr4 = lr\<lparr>lrActivityMap := AList.update ?date cur ?am,
                        lrModelTokensMap := ?mtm',
                        lrMessages := lrMessages lr + messageCount s\<rparr>"
    unfolding lr4_def by (simp add: r3_lr)
  have n1_ne: "?n1 \<noteq> ?hc" using hc n1 by simp
  have hc_upd: "\<forall>p\<in>set ?mtm'. snd p \<noteq> ?hc"
  proof (cases "map_of ?mtm ?date")
    case None
    show ?thesis
    proof
      fix p assume "p \<in> set ?mtm'"
      with None have "snd p \<in> insert ?n1 (snd ` set ?mtm)"
        using snd_update_subset[of ?date ?n1 ?mtm] by auto
      with n1_ne hc_other show "snd p \<noteq> ?hc" by auto
    qed
  next
    case (Some t)
    with hc_other show ?thesis by simp
  qed
  have h4_num: "numberRecordAt h4 = ?num'(?hc := updateHourCounts hk (?num' ?hc) s)"
    unfolding h4_def by (simp add: lr4 r3_num)
  have num_hc: "?num' ?hc = numberRecordAt h ?hc"
    using n1_ne by (simp split: option.splits)
  have h4_tabs: "countsAt h4 = (countsAt h)(cur := ?W)" "longestAt h4 = longestAt h"
    "usageAt h4 = usageAt h" "usageRecordAt h4 = usageRecordAt h"
    "nextRef h4 = ?n3"
    unfolding h4_def by (simp_all add: setNumberRecord_def r3_counts r3_tabs r3_next)
  note lp = longestStepS_tables[where detail=None and s=s and lr=lr4 and h=h4, folded p_def]
  note lf = longestStepS_fields[where detail=None and s=s and lr=lr4 and h=h4, folded p_def]
  have g1: "absMap ((countsAt h)(cur := ?W)) (AList.update ?date cur ?am)
      = AList.update ?date ?W (absMap (countsAt h) ?am)"
    unfolding cur_eq by (rule absMap_get_or_new(1)[OF s_am])
  have g2: "sepMap ?n1 (AList.update ?date cur ?am)"
    unfolding cur_eq by (rule absMap_get_or_new(2)[OF s_am])
  have a1: "absMap (countsAt (snd p)) (lrActivityMap (fst p))
      = AList.update ?date ?W (absMap (countsAt h) ?am)"
    by (simp add: lp lf h4_tabs) (simp add: lr4 g1)
  have s_mtm1: "sepMap ?n1 ?mtm" using s_mtm n1 by (rule sepMap_mono)
  have mtm4: "lrModelTokensMap (fst p) = ?mtm'"
    by (simp add: lf) (simp add: lr4)
  have a2: "absMap (numberRecordAt (snd p)) (lrModelTokensMap (fst p))
      = (if map_of (absMap (numberRecordAt h) ?mtm) ?date \<noteq> None
         then absMap (numberRecordAt h) ?mtm
         else AList.update ?date [] (absMap (numberRecordAt h) ?mtm))"
  proof -
    have "absMap (numberRecordAt (snd p)) (lrModelTokensMap (fst p)) = absMap ?num' ?mtm'"
      using absMap_other[OF hc_upd] by (simp add: lp h4_num mtm4)
    also have "\<dots> = (if map_of (absMap (numberRecordAt h) ?mtm) ?date \<noteq> None
         then absMap (numberRecordAt h) ?mtm
         else AList.update ?date [] (absMap (numberRecordAt h) ?mtm))"
    proof (cases "map_of ?mtm ?date")
      case None
      with absMap_get_or_new(1)[OF s_mtm1, of "numberRecordAt h" ?date "[]"]
      show ?thesis by (simp add: map_of_absMap)
    next
      case (Some t)
      then show ?thesis by (simp add: map_of_absMap)
    qed
    finally show ?thesis .
  qed
  have mu4: "lrModelUsage (fst p) = ?mu" "lrHourCounts (fst p) = ?hc"
    "lrMessages (fst p) = lrMessages lr + messageCount s"
    "lrLongest lr4 = lrLongest lr"
    by (simp_all add: lf) (simp_all add: lr4)
  have a3: "absMap (usageAt (snd p)) (usageRecordAt (snd p) (lrModelUsage (fst p)))
      = absMap (usageAt h) (usageRecordAt h ?mu)"
    by (simp add: lp mu4 h4_tabs)
  have a4: "numberRecordAt (snd p) (lrHourCounts (fst p))
      = updateHourCounts hk (numberRecordAt h ?hc) s"
    by (simp add: lp mu4 h4_num num_hc)
  have a6: "longestAt (snd p) (lrLongest (fst p)) = longestStep None s (longestAt h (lrLongest lr))"
    by (simp add: lp(1) h4_tabs mu4)
  have abs: "absLoop (snd p) (fst p) = sessionStep dm hk s (absLoop h lr)"
    unfolding absLoop_def using a1 a2 a3 a4 mu4(3) a6 d
    by (simp add: sessionStep_def Let_def)
  have np: "?n3 \<le> nextRef (snd p)"
    using lp(7) by (simp add: h4_tabs)
  have "?n1 \<le> nextRef (snd p)" using n3 np by (rule order_trans)
  with g2 have b1: "sepMap (nextRef (snd p)) (lrActivityMap (fst p))"
    by (simp add: lf) (simp add: lr4 sepMap_mono)
  have "sepMap ?n3 ?mtm'"
  proof (cases "map_of ?mtm ?date")
    case None
    with absMap_get_or_new(2)[OF s_mtm1, of ?date] show ?thesis by simp
  next
    case (Some t)
    with s_mtm1 show ?thesis by simp
  qed
  with np have b2: "sepMap (nextRef (snd p)) (lrModelTokensMap (fst p))"
    by (simp add: mtm4 sepMap_mono)
  have b3: "lrHourCounts (fst p) < nextRef (snd p)"
    using hc n1 n3 np by (simp add: mu4)
  have b4: "\<forall>q\<in>set (lrModelTokensMap (fst p)). snd q \<noteq> lrHourCounts (fst p)"
    using hc_upd by (simp add: mtm4 mu4)
  have "?n \<le> nextRef (snd p)" using n1 n3 np by simp
  with s_mu have b5: "sepMap (nextRef (snd p)) (usageRecordAt (snd p) (lrModelUsage (fst p)))"
    by (simp add: lp(6) mu4 h4_tabs sepMap_mono)
  show ?thesis
    unfolding step using abs b1 b2 b3 b4 b5 by (simp add: sepLoop_def)
qed

lemma sessionStepS_sim:
  fixes lr :: LoopRefs
  assumes "sepLoop h lr"
  shows "absLoop (snd (sessionStepS dm hk s (lr, h))) (fst (sessionStepS dm hk s (lr, h)))
           = sessionStep dm hk s (absLoop h lr)
       \<and> sepLoop (snd (sessionStepS dm hk s (lr, h))) (fst (sessionStepS dm hk s (lr, h)))"
  using sessionStepS_sim_None[OF assms] sessionStepS_sim_Some[OF assms]
  by (cases "dm (sessionId s)") simp_all

lemma fold_sessionStepS_sim:
  fixes lr :: LoopRefs
  assumes "sepLoop h lr"
  shows "absLoop (snd (fold (sessionStepS dm hk) xs (lr, h))) (fst (fold (sessionStepS dm hk) xs (lr, h)))
           = fold (sessionStep dm hk) xs (absLoop h lr)
       \<and> sepLoop (snd (fold (sessionStepS dm hk) xs (lr, h))) (fst (fold (sessionStepS dm hk) xs (lr, h)))"
  using assms
proof (induction xs arbitrary: lr h)
  case Nil
  then show ?case by simp
next
  case (Cons x xs)
  obtain lr' h' where p: "sessionStepS dm hk x (lr, h) = (lr', h')"
    by (cases "sessionStepS dm hk x (lr, h)")
  from sessionStepS_sim[OF Cons.prems, of dm hk x] p
  have a: "absLoop h' lr' = sessionStep dm hk x (absLoop h lr)" and s: "sepLoop h' lr'"
    by simp_all
  from Cons.IH[OF s] a p show ?case by simp
qed

text \<open>A new object put into a map of references, whether or not the key was there.\<close>

lemma update_values_fresh_any:
  "r \<notin> snd ` set m \<Longrightarrow> distinct (map snd m) \<Longrightarrow> distinct (map snd (AList.update k r m))"
proof (induction m)
  case Nil
  then show ?case by simp
next
  case (Cons a m)
  show ?case
  proof (cases "fst a = k")
    case True
    with Cons.prems show ?thesis by (cases a) auto
  next
    case False
    have "snd a \<notin> snd ` set (AList.update k r m)"
      using snd_update_subset[of k r m] Cons.prems by auto
    with False Cons show ?thesis by (cases a) auto
  qed
qed

lemma sepMap_put_fresh:
  assumes "sepMap n m"
  shows "sepMap (Suc n) (AList.update k n m)"
proof -
  have fresh: "n \<notin> snd ` set m" using assms by (auto simp: sepMap_def)
  have d1: "distinct (map fst (AList.update k n m))"
    using assms by (simp add: sepMap_def distinct_update)
  have d2: "distinct (map snd (AList.update k n m))"
    using fresh assms by (intro update_values_fresh_any) (simp_all add: sepMap_def)
  have "\<forall>p\<in>set (AList.update k n m). snd p < Suc n"
  proof
    fix p assume "p \<in> set (AList.update k n m)"
    then have "snd p \<in> insert n (snd ` set m)"
      using snd_update_subset[of k n m] by auto
    with assms show "snd p < Suc n" by (auto simp: sepMap_def less_Suc_eq)
  qed
  with d1 d2 show ?thesis by (simp add: sepMap_def)
qed

lemma absMap_put_fresh:
  assumes "sepMap n m"
  shows "absMap (f(n := x)) (AList.update k n m) = AList.update k x (absMap f m)"
proof -
  have "\<forall>p\<in>set m. snd p \<noteq> n" using assms by (rule sepMap_fresh_other) simp
  then have "absMap (f(n := x)) m = absMap f m" by (rule absMap_other)
  then show ?thesis by (simp add: absMap_update)
qed

text \<open>The copy of \<open>dailyActivity\<close> stands for the map the pure model starts from.\<close>

lemma copyDailyActivity_sim_aux:
  fixes F es m h
  defines "F \<equiv> (\<lambda>e (m, h).
             let entry = activityEntryAt h e;
                 (c, h') = newCounts \<lparr>acMessageCount = daMessageCount entry,
                                      acSessionCount = daSessionCount entry,
                                      acToolCallCount = daToolCallCount entry\<rparr> h
             in (AList.update (daDate entry) c m, h'))"
  assumes "sepMap (nextRef h) m"
  shows "absMap (countsAt (snd (fold F es (m, h)))) (fst (fold F es (m, h)))
           = fold (\<lambda>entry m. AList.update (daDate entry)
                \<lparr>acMessageCount = daMessageCount entry, acSessionCount = daSessionCount entry,
                 acToolCallCount = daToolCallCount entry\<rparr> m)
               (map (activityEntryAt h) es) (absMap (countsAt h) m)
       \<and> sepMap (nextRef (snd (fold F es (m, h)))) (fst (fold F es (m, h)))
       \<and> statsAt (snd (fold F es (m, h))) = statsAt h
       \<and> arrayAt (snd (fold F es (m, h))) = arrayAt h
       \<and> activityEntryAt (snd (fold F es (m, h))) = activityEntryAt h
       \<and> tokensEntryAt (snd (fold F es (m, h))) = tokensEntryAt h
       \<and> numberRecordAt (snd (fold F es (m, h))) = numberRecordAt h
       \<and> usageAt (snd (fold F es (m, h))) = usageAt h
       \<and> usageRecordAt (snd (fold F es (m, h))) = usageRecordAt h
       \<and> longestAt (snd (fold F es (m, h))) = longestAt h
       \<and> nextRef h \<le> nextRef (snd (fold F es (m, h)))"
  using assms(2)
proof (induction es arbitrary: m h)
  case Nil
  then show ?case by simp
next
  case (Cons e es)
  let ?entry = "activityEntryAt h e"
  let ?v = "\<lparr>acMessageCount = daMessageCount ?entry, acSessionCount = daSessionCount ?entry,
             acToolCallCount = daToolCallCount ?entry\<rparr>"
  define m1 where "m1 = AList.update (daDate ?entry) (nextRef h) m"
  define h1 where "h1 = h\<lparr>countsAt := (countsAt h)(nextRef h := ?v), nextRef := Suc (nextRef h)\<rparr>"
  have step: "F e (m, h) = (m1, h1)"
    by (simp add: F_def m1_def h1_def newCounts_def Let_def)
  have s1: "sepMap (nextRef h1) m1"
    unfolding m1_def h1_def using sepMap_put_fresh[OF Cons.prems] by simp
  have a1: "absMap (countsAt h1) m1 = AList.update (daDate ?entry) ?v (absMap (countsAt h) m)"
    unfolding m1_def h1_def using absMap_put_fresh[OF Cons.prems] by simp
  have t1: "statsAt h1 = statsAt h" "arrayAt h1 = arrayAt h" "activityEntryAt h1 = activityEntryAt h"
    "tokensEntryAt h1 = tokensEntryAt h" "numberRecordAt h1 = numberRecordAt h"
    "usageAt h1 = usageAt h" "usageRecordAt h1 = usageRecordAt h" "longestAt h1 = longestAt h"
    "nextRef h \<le> nextRef h1"
    by (simp_all add: h1_def)
  from Cons.IH[OF s1] show ?case
    by (simp add: step a1 t1) (use t1(9) in simp)
qed

lemma copyDailyActivity_sim:
  "absMap (countsAt (snd (copyDailyActivity es h))) (fst (copyDailyActivity es h))
     = fold (\<lambda>entry m. AList.update (daDate entry)
                \<lparr>acMessageCount = daMessageCount entry, acSessionCount = daSessionCount entry,
                 acToolCallCount = daToolCallCount entry\<rparr> m)
            (map (activityEntryAt h) es) []
   \<and> sepMap (nextRef (snd (copyDailyActivity es h))) (fst (copyDailyActivity es h))
   \<and> statsAt (snd (copyDailyActivity es h)) = statsAt h
   \<and> arrayAt (snd (copyDailyActivity es h)) = arrayAt h
   \<and> activityEntryAt (snd (copyDailyActivity es h)) = activityEntryAt h
   \<and> tokensEntryAt (snd (copyDailyActivity es h)) = tokensEntryAt h
   \<and> numberRecordAt (snd (copyDailyActivity es h)) = numberRecordAt h
   \<and> usageAt (snd (copyDailyActivity es h)) = usageAt h
   \<and> usageRecordAt (snd (copyDailyActivity es h)) = usageRecordAt h
   \<and> longestAt (snd (copyDailyActivity es h)) = longestAt h
   \<and> nextRef h \<le> nextRef (snd (copyDailyActivity es h))"
proof -
  have "sepMap (nextRef h) []" by (simp add: sepMap_def)
  from copyDailyActivity_sim_aux[OF this, of es] show ?thesis
    unfolding copyDailyActivity_def by (simp add: absMap_def)
qed

text \<open>The copy of \<open>dailyModelTokens\<close>, whose entries refer to records of the snapshot.\<close>

lemma copyDailyModelTokens_sim_aux:
  fixes F es m h
  defines "F \<equiv> (\<lambda>e (m, h).
             let (date, tokens) = tokensEntryAt h e;
                 (c, h') = newNumberRecord (numberRecordAt h tokens) h
             in (AList.update date c m, h'))"
  assumes "sepMap (nextRef h) m" and "\<forall>e\<in>set es. snd (tokensEntryAt h e) < nextRef h"
  shows "absMap (numberRecordAt (snd (fold F es (m, h)))) (fst (fold F es (m, h)))
           = fold (\<lambda>entry m. AList.update (dmtDate entry) (dmtTokensByModel entry) m)
               (map (\<lambda>e. \<lparr>dmtDate = fst (tokensEntryAt h e),
                          dmtTokensByModel = numberRecordAt h (snd (tokensEntryAt h e))\<rparr>) es)
               (absMap (numberRecordAt h) m)
       \<and> sepMap (nextRef (snd (fold F es (m, h)))) (fst (fold F es (m, h)))
       \<and> statsAt (snd (fold F es (m, h))) = statsAt h
       \<and> arrayAt (snd (fold F es (m, h))) = arrayAt h
       \<and> activityEntryAt (snd (fold F es (m, h))) = activityEntryAt h
       \<and> tokensEntryAt (snd (fold F es (m, h))) = tokensEntryAt h
       \<and> countsAt (snd (fold F es (m, h))) = countsAt h
       \<and> usageAt (snd (fold F es (m, h))) = usageAt h
       \<and> usageRecordAt (snd (fold F es (m, h))) = usageRecordAt h
       \<and> longestAt (snd (fold F es (m, h))) = longestAt h
       \<and> nextRef h \<le> nextRef (snd (fold F es (m, h)))
       \<and> (\<forall>a<nextRef h. numberRecordAt (snd (fold F es (m, h))) a = numberRecordAt h a)"
  using assms(2,3)
proof (induction es arbitrary: m h)
  case Nil
  then show ?case by simp
next
  case (Cons e es)
  let ?v = "numberRecordAt h (snd (tokensEntryAt h e))"
  define m1 where "m1 = AList.update (fst (tokensEntryAt h e)) (nextRef h) m"
  define h1 where "h1 = h\<lparr>numberRecordAt := (numberRecordAt h)(nextRef h := ?v),
                          nextRef := Suc (nextRef h)\<rparr>"
  have step: "F e (m, h) = (m1, h1)"
    by (simp add: F_def m1_def h1_def newNumberRecord_def Let_def split_beta)
  have s1: "sepMap (nextRef h1) m1"
    unfolding m1_def h1_def using sepMap_put_fresh[OF Cons.prems(1)] by simp
  have a1: "absMap (numberRecordAt h1) m1
      = AList.update (fst (tokensEntryAt h e)) ?v (absMap (numberRecordAt h) m)"
    unfolding m1_def h1_def using absMap_put_fresh[OF Cons.prems(1)] by simp
  have t1: "statsAt h1 = statsAt h" "arrayAt h1 = arrayAt h" "activityEntryAt h1 = activityEntryAt h"
    "tokensEntryAt h1 = tokensEntryAt h" "countsAt h1 = countsAt h"
    "usageAt h1 = usageAt h" "usageRecordAt h1 = usageRecordAt h" "longestAt h1 = longestAt h"
    by (simp_all add: h1_def)
  have n1: "nextRef h1 = Suc (nextRef h)" by (simp add: h1_def)
  have below: "\<And>a. a < nextRef h \<Longrightarrow> numberRecordAt h1 a = numberRecordAt h a"
    by (simp add: h1_def)
  have b1: "\<forall>e\<in>set es. snd (tokensEntryAt h1 e) < nextRef h1"
    using Cons.prems(2) by (simp add: t1 n1 less_Suc_eq)
  have rd: "map (\<lambda>e. \<lparr>dmtDate = fst (tokensEntryAt h e),
                       dmtTokensByModel = numberRecordAt h1 (snd (tokensEntryAt h e))\<rparr>) es
          = map (\<lambda>e. \<lparr>dmtDate = fst (tokensEntryAt h e),
                       dmtTokensByModel = numberRecordAt h (snd (tokensEntryAt h e))\<rparr>) es"
    using Cons.prems(2) by (intro map_cong) (simp_all add: t1 below)
  define q where "q = fold F es (m1, h1)"
  note ih = Cons.IH[OF s1 b1, folded q_def]
  have fq: "fold F (e # es) (m, h) = q" by (simp add: step q_def)
  have low: "\<forall>a<nextRef h. numberRecordAt (snd q) a = numberRecordAt h a"
  proof (intro allI impI)
    fix a assume a: "a < nextRef h"
    then have "a < nextRef h1" by (simp add: n1)
    with ih have "numberRecordAt (snd q) a = numberRecordAt h1 a" by simp
    with a show "numberRecordAt (snd q) a = numberRecordAt h a" by (simp add: below)
  qed
  have nx: "nextRef h \<le> nextRef (snd q)" using ih by (simp add: n1)
  show ?case
    unfolding fq using ih low nx by (simp add: rd a1 t1)
qed

lemma copyDailyModelTokens_sim:
  assumes "\<forall>e\<in>set es. snd (tokensEntryAt h e) < nextRef h"
  shows "absMap (numberRecordAt (snd (copyDailyModelTokens es h))) (fst (copyDailyModelTokens es h))
           = fold (\<lambda>entry m. AList.update (dmtDate entry) (dmtTokensByModel entry) m)
               (map (\<lambda>e. \<lparr>dmtDate = fst (tokensEntryAt h e),
                          dmtTokensByModel = numberRecordAt h (snd (tokensEntryAt h e))\<rparr>) es) []
       \<and> sepMap (nextRef (snd (copyDailyModelTokens es h))) (fst (copyDailyModelTokens es h))
       \<and> statsAt (snd (copyDailyModelTokens es h)) = statsAt h
       \<and> arrayAt (snd (copyDailyModelTokens es h)) = arrayAt h
       \<and> activityEntryAt (snd (copyDailyModelTokens es h)) = activityEntryAt h
       \<and> tokensEntryAt (snd (copyDailyModelTokens es h)) = tokensEntryAt h
       \<and> countsAt (snd (copyDailyModelTokens es h)) = countsAt h
       \<and> usageAt (snd (copyDailyModelTokens es h)) = usageAt h
       \<and> usageRecordAt (snd (copyDailyModelTokens es h)) = usageRecordAt h
       \<and> longestAt (snd (copyDailyModelTokens es h)) = longestAt h
       \<and> nextRef h \<le> nextRef (snd (copyDailyModelTokens es h))
       \<and> (\<forall>a<nextRef h. numberRecordAt (snd (copyDailyModelTokens es h)) a = numberRecordAt h a)"
proof -
  have "sepMap (nextRef h) []" by (simp add: sepMap_def)
  from copyDailyModelTokens_sim_aux[OF this assms] show ?thesis
    unfolding copyDailyModelTokens_def by (simp add: absMap_def)
qed

text \<open>The copy of \<open>modelUsage\<close>, into a record of the store.\<close>

lemma copyModelUsage_sim:
  assumes "sepMap (nextRef h) (usageRecordAt h target)"
    and "\<forall>p\<in>set entries. snd p < nextRef h"
  shows "absMap (usageAt (copyModelUsage entries target h))
             (usageRecordAt (copyModelUsage entries target h) target)
           = fold (\<lambda>(model, usage) m. AList.update model usage m)
               (map (\<lambda>(model, u). (model, usageAt h u)) entries)
               (absMap (usageAt h) (usageRecordAt h target))
       \<and> sepMap (nextRef (copyModelUsage entries target h))
            (usageRecordAt (copyModelUsage entries target h) target)
       \<and> statsAt (copyModelUsage entries target h) = statsAt h
       \<and> arrayAt (copyModelUsage entries target h) = arrayAt h
       \<and> activityEntryAt (copyModelUsage entries target h) = activityEntryAt h
       \<and> tokensEntryAt (copyModelUsage entries target h) = tokensEntryAt h
       \<and> countsAt (copyModelUsage entries target h) = countsAt h
       \<and> numberRecordAt (copyModelUsage entries target h) = numberRecordAt h
       \<and> longestAt (copyModelUsage entries target h) = longestAt h
       \<and> nextRef h \<le> nextRef (copyModelUsage entries target h)"
  using assms
proof (induction entries arbitrary: h)
  case Nil
  then show ?case by (simp add: copyModelUsage_def)
next
  case (Cons e entries)
  obtain model u where e: "e = (model, u)" by (cases e)
  define h1 where "h1 = h\<lparr>usageAt := (usageAt h)(nextRef h := usageAt h u),
                          nextRef := Suc (nextRef h),
                          usageRecordAt := (usageRecordAt h)
                            (target := AList.update model (nextRef h) (usageRecordAt h target))\<rparr>"
  have step: "copyModelUsage (e # entries) target h = copyModelUsage entries target h1"
    by (simp add: copyModelUsage_def e h1_def newUsage_def setUsageRecord_def Let_def)
  have s1: "sepMap (nextRef h1) (usageRecordAt h1 target)"
    unfolding h1_def using sepMap_put_fresh[OF Cons.prems(1)] by simp
  have a1: "absMap (usageAt h1) (usageRecordAt h1 target)
      = AList.update model (usageAt h u) (absMap (usageAt h) (usageRecordAt h target))"
    unfolding h1_def using absMap_put_fresh[OF Cons.prems(1)] by simp
  have t1: "statsAt h1 = statsAt h" "arrayAt h1 = arrayAt h" "activityEntryAt h1 = activityEntryAt h"
    "tokensEntryAt h1 = tokensEntryAt h" "countsAt h1 = countsAt h"
    "numberRecordAt h1 = numberRecordAt h" "longestAt h1 = longestAt h"
    by (simp_all add: h1_def)
  have n1: "nextRef h1 = Suc (nextRef h)" by (simp add: h1_def)
  have below: "\<And>a. a < nextRef h \<Longrightarrow> usageAt h1 a = usageAt h a"
    by (simp add: h1_def)
  have b1: "\<forall>p\<in>set entries. snd p < nextRef h1"
    using Cons.prems(2) by (simp add: n1 less_Suc_eq)
  have rd: "map (\<lambda>(model, u). (model, usageAt h1 u)) entries
          = map (\<lambda>(model, u). (model, usageAt h u)) entries"
    using Cons.prems(2) by (intro map_cong) (auto simp: below)
  define q where "q = copyModelUsage entries target h1"
  note ih = Cons.IH[OF s1 b1, folded q_def]
  have nx: "nextRef h \<le> nextRef q" using ih by (simp add: n1)
  show ?case
    unfolding step q_def[symmetric] using ih nx by (simp add: rd a1 t1 e)
qed

text \<open>Sorting references by what they refer to is sorting what they refer to.\<close>

lemma insertJS_map:
  "map f (insertJS (\<lambda>a b. cmp (f a) (f b)) x ys) = insertJS cmp (f x) (map f ys)"
  by (induction ys) simp_all

lemma sortJS_map: "map f (sortJS (\<lambda>a b. cmp (f a) (f b)) xs) = sortJS cmp (map f xs)"
  by (induction xs) (simp_all add: sortJS_def insertJS_map)

text \<open>The arrays built after the loop stand for the arrays of the pure model.\<close>

lemma rebuildDailyActivityS_sim_aux:
  fixes G am es h
  defines "G \<equiv> (\<lambda>(date, v) (es, h).
                    let (e, h') = newActivityEntry
                                    \<lparr>daDate = date, daMessageCount = acMessageCount (countsAt h v),
                                     daSessionCount = acSessionCount (countsAt h v),
                                     daToolCallCount = acToolCallCount (countsAt h v)\<rparr> h
                    in (es @ [e], h'))"
  assumes "\<forall>e\<in>set es. e < nextRef h"
  shows "map (activityEntryAt (snd (fold G am (es, h)))) (fst (fold G am (es, h)))
           = map (activityEntryAt h) es
             @ map (\<lambda>(date, v). \<lparr>daDate = date, daMessageCount = acMessageCount v,
                          daSessionCount = acSessionCount v, daToolCallCount = acToolCallCount v\<rparr>)
                   (absMap (countsAt h) am)
       \<and> statsAt (snd (fold G am (es, h))) = statsAt h
       \<and> arrayAt (snd (fold G am (es, h))) = arrayAt h
       \<and> tokensEntryAt (snd (fold G am (es, h))) = tokensEntryAt h
       \<and> countsAt (snd (fold G am (es, h))) = countsAt h
       \<and> numberRecordAt (snd (fold G am (es, h))) = numberRecordAt h
       \<and> usageAt (snd (fold G am (es, h))) = usageAt h
       \<and> usageRecordAt (snd (fold G am (es, h))) = usageRecordAt h
       \<and> longestAt (snd (fold G am (es, h))) = longestAt h
       \<and> nextRef h \<le> nextRef (snd (fold G am (es, h)))
       \<and> (\<forall>a<nextRef h. activityEntryAt (snd (fold G am (es, h))) a = activityEntryAt h a)"
  using assms(2)
proof (induction am arbitrary: es h)
  case Nil
  then show ?case by (simp add: absMap_def)
next
  case (Cons p am)
  obtain d v where p: "p = (d, v)" by (cases p)
  let ?E = "\<lparr>daDate = d, daMessageCount = acMessageCount (countsAt h v),
             daSessionCount = acSessionCount (countsAt h v),
             daToolCallCount = acToolCallCount (countsAt h v)\<rparr>"
  define h1 where "h1 = h\<lparr>activityEntryAt := (activityEntryAt h)(nextRef h := ?E),
                          nextRef := Suc (nextRef h)\<rparr>"
  have step: "G p (es, h) = (es @ [nextRef h], h1)"
    by (simp add: G_def p h1_def newActivityEntry_def Let_def)
  have t1: "statsAt h1 = statsAt h" "arrayAt h1 = arrayAt h" "tokensEntryAt h1 = tokensEntryAt h"
    "countsAt h1 = countsAt h" "numberRecordAt h1 = numberRecordAt h"
    "usageAt h1 = usageAt h" "usageRecordAt h1 = usageRecordAt h" "longestAt h1 = longestAt h"
    by (simp_all add: h1_def)
  have n1: "nextRef h1 = Suc (nextRef h)" by (simp add: h1_def)
  have below: "\<And>a. a < nextRef h \<Longrightarrow> activityEntryAt h1 a = activityEntryAt h a"
    by (simp add: h1_def)
  have at_n: "activityEntryAt h1 (nextRef h) = ?E" by (simp add: h1_def)
  have b1: "\<forall>e\<in>set (es @ [nextRef h]). e < nextRef h1"
    using Cons.prems by (auto simp: n1 less_Suc_eq)
  have rd: "map (activityEntryAt h1) es = map (activityEntryAt h) es"
    using Cons.prems by (intro map_cong) (simp_all add: below)
  define q where "q = fold G am (es @ [nextRef h], h1)"
  note ih = Cons.IH[OF b1, folded q_def]
  have fq: "fold G (p # am) (es, h) = q" by (simp add: step q_def)
  have low: "\<forall>a<nextRef h. activityEntryAt (snd q) a = activityEntryAt h a"
  proof (intro allI impI)
    fix a assume a: "a < nextRef h"
    then have "a < nextRef h1" by (simp add: n1)
    with ih have "activityEntryAt (snd q) a = activityEntryAt h1 a" by simp
    with a show "activityEntryAt (snd q) a = activityEntryAt h a" by (simp add: below)
  qed
  have nx: "nextRef h \<le> nextRef (snd q)" using ih by (simp add: n1)
  have m: "map (activityEntryAt (snd q)) (fst q)
      = map (activityEntryAt h) es
        @ map (\<lambda>(date, v). \<lparr>daDate = date, daMessageCount = acMessageCount v,
                     daSessionCount = acSessionCount v, daToolCallCount = acToolCallCount v\<rparr>)
              (absMap (countsAt h) (p # am))"
    using ih by (simp add: rd at_n t1 p absMap_def)
  show ?case
    unfolding fq using ih low nx m by (simp add: t1)
qed

lemma rebuildDailyActivityS_sim:
  "map (activityEntryAt (snd (rebuildDailyActivityS am h)))
       (arrayAt (snd (rebuildDailyActivityS am h)) (fst (rebuildDailyActivityS am h)))
     = rebuildDailyActivity (absMap (countsAt h) am)
   \<and> statsAt (snd (rebuildDailyActivityS am h)) = statsAt h
   \<and> tokensEntryAt (snd (rebuildDailyActivityS am h)) = tokensEntryAt h
   \<and> countsAt (snd (rebuildDailyActivityS am h)) = countsAt h
   \<and> numberRecordAt (snd (rebuildDailyActivityS am h)) = numberRecordAt h
   \<and> usageAt (snd (rebuildDailyActivityS am h)) = usageAt h
   \<and> usageRecordAt (snd (rebuildDailyActivityS am h)) = usageRecordAt h
   \<and> longestAt (snd (rebuildDailyActivityS am h)) = longestAt h
   \<and> nextRef h \<le> fst (rebuildDailyActivityS am h)
   \<and> fst (rebuildDailyActivityS am h) < nextRef (snd (rebuildDailyActivityS am h))"
proof -
  define G where "G = (\<lambda>(date, v) (es, h).
                    let (e, h') = newActivityEntry
                                    \<lparr>daDate = date, daMessageCount = acMessageCount (countsAt h v),
                                     daSessionCount = acSessionCount (countsAt h v),
                                     daToolCallCount = acToolCallCount (countsAt h v)\<rparr> h
                    in (es @ [e], h'))"
  define q where "q = fold G am ([], h)"
  define sorted where
    "sorted = sortJS (\<lambda>a b. byActivityDate (activityEntryAt (snd q) a) (activityEntryAt (snd q) b)) (fst q)"
  have r: "rebuildDailyActivityS am h = newArray sorted (snd q)"
    by (simp add: rebuildDailyActivityS_def sorted_def q_def G_def Let_def split_beta)
  have "\<forall>e\<in>set ([]::ref list). e < nextRef h" by simp
  note aux = rebuildDailyActivityS_sim_aux[OF this, of am, folded G_def, folded q_def]
  have "map (activityEntryAt (snd q)) sorted = sortJS byActivityDate (map (activityEntryAt (snd q)) (fst q))"
    unfolding sorted_def by (rule sortJS_map)
  also have "\<dots> = rebuildDailyActivity (absMap (countsAt h) am)"
    using aux by (simp add: rebuildDailyActivity_def)
  finally have m: "map (activityEntryAt (snd q)) sorted = rebuildDailyActivity (absMap (countsAt h) am)" .
  show ?thesis
    unfolding r using aux m by (simp add: newArray_def)
qed

lemma rebuildDailyModelTokensS_sim_aux:
  fixes G mtm es h
  defines "G \<equiv> (\<lambda>(date, tokens) (es, h).
                    let (e, h') = newTokensEntry (date, tokens) h in (es @ [e], h'))"
  assumes "\<forall>e\<in>set es. e < nextRef h"
  shows "map (tokensEntryAt (snd (fold G mtm (es, h)))) (fst (fold G mtm (es, h)))
           = map (tokensEntryAt h) es @ mtm
       \<and> statsAt (snd (fold G mtm (es, h))) = statsAt h
       \<and> arrayAt (snd (fold G mtm (es, h))) = arrayAt h
       \<and> activityEntryAt (snd (fold G mtm (es, h))) = activityEntryAt h
       \<and> countsAt (snd (fold G mtm (es, h))) = countsAt h
       \<and> numberRecordAt (snd (fold G mtm (es, h))) = numberRecordAt h
       \<and> usageAt (snd (fold G mtm (es, h))) = usageAt h
       \<and> usageRecordAt (snd (fold G mtm (es, h))) = usageRecordAt h
       \<and> longestAt (snd (fold G mtm (es, h))) = longestAt h
       \<and> nextRef h \<le> nextRef (snd (fold G mtm (es, h)))"
  using assms(2)
proof (induction mtm arbitrary: es h)
  case Nil
  then show ?case by simp
next
  case (Cons p mtm)
  define h1 where "h1 = h\<lparr>tokensEntryAt := (tokensEntryAt h)(nextRef h := p),
                          nextRef := Suc (nextRef h)\<rparr>"
  have step: "G p (es, h) = (es @ [nextRef h], h1)"
    by (cases p) (simp add: G_def h1_def newTokensEntry_def Let_def)
  have t1: "statsAt h1 = statsAt h" "arrayAt h1 = arrayAt h" "activityEntryAt h1 = activityEntryAt h"
    "countsAt h1 = countsAt h" "numberRecordAt h1 = numberRecordAt h"
    "usageAt h1 = usageAt h" "usageRecordAt h1 = usageRecordAt h" "longestAt h1 = longestAt h"
    by (simp_all add: h1_def)
  have n1: "nextRef h1 = Suc (nextRef h)" by (simp add: h1_def)
  have below: "\<And>a. a < nextRef h \<Longrightarrow> tokensEntryAt h1 a = tokensEntryAt h a"
    by (simp add: h1_def)
  have at_n: "tokensEntryAt h1 (nextRef h) = p" by (simp add: h1_def)
  have b1: "\<forall>e\<in>set (es @ [nextRef h]). e < nextRef h1"
    using Cons.prems by (auto simp: n1 less_Suc_eq)
  have rd: "map (tokensEntryAt h1) es = map (tokensEntryAt h) es"
    using Cons.prems by (intro map_cong) (simp_all add: below)
  define q where "q = fold G mtm (es @ [nextRef h], h1)"
  note ih = Cons.IH[OF b1, folded q_def]
  have fq: "fold G (p # mtm) (es, h) = q" by (simp add: step q_def)
  have nx: "nextRef h \<le> nextRef (snd q)" using ih by (simp add: n1)
  show ?case
    unfolding fq using ih nx by (simp add: rd at_n t1)
qed

lemma rebuildDailyModelTokensS_sim:
  "map (\<lambda>e. \<lparr>dmtDate = fst (tokensEntryAt (snd (rebuildDailyModelTokensS mtm h)) e),
             dmtTokensByModel = numberRecordAt (snd (rebuildDailyModelTokensS mtm h))
                                  (snd (tokensEntryAt (snd (rebuildDailyModelTokensS mtm h)) e))\<rparr>)
       (arrayAt (snd (rebuildDailyModelTokensS mtm h)) (fst (rebuildDailyModelTokensS mtm h)))
     = rebuildDailyModelTokens (absMap (numberRecordAt h) mtm)
   \<and> statsAt (snd (rebuildDailyModelTokensS mtm h)) = statsAt h
   \<and> activityEntryAt (snd (rebuildDailyModelTokensS mtm h)) = activityEntryAt h
   \<and> countsAt (snd (rebuildDailyModelTokensS mtm h)) = countsAt h
   \<and> numberRecordAt (snd (rebuildDailyModelTokensS mtm h)) = numberRecordAt h
   \<and> usageAt (snd (rebuildDailyModelTokensS mtm h)) = usageAt h
   \<and> usageRecordAt (snd (rebuildDailyModelTokensS mtm h)) = usageRecordAt h
   \<and> longestAt (snd (rebuildDailyModelTokensS mtm h)) = longestAt h
   \<and> nextRef h \<le> fst (rebuildDailyModelTokensS mtm h)
   \<and> fst (rebuildDailyModelTokensS mtm h) < nextRef (snd (rebuildDailyModelTokensS mtm h))
   \<and> (\<forall>a<nextRef h. arrayAt (snd (rebuildDailyModelTokensS mtm h)) a = arrayAt h a)"
proof -
  define G where "G = (\<lambda>(date, tokens) (es, h).
                    let (e, h') = newTokensEntry (date, tokens) h in (es @ [e], h'))"
  define q where "q = fold G mtm ([], h)"
  define R where "R = (\<lambda>e. \<lparr>dmtDate = fst (tokensEntryAt (snd q) e),
                            dmtTokensByModel = numberRecordAt h (snd (tokensEntryAt (snd q) e))\<rparr>)"
  define sorted where
    "sorted = sortJS (\<lambda>a b. if fst (tokensEntryAt (snd q) a) < fst (tokensEntryAt (snd q) b)
                           then - 1 else 1) (fst q)"
  have r: "rebuildDailyModelTokensS mtm h = newArray sorted (snd q)"
    by (simp add: rebuildDailyModelTokensS_def sorted_def q_def G_def Let_def split_beta)
  have "\<forall>e\<in>set ([]::ref list). e < nextRef h" by simp
  note aux = rebuildDailyModelTokensS_sim_aux[OF this, of mtm, folded G_def, folded q_def]
  have cmp: "(\<lambda>a b. if fst (tokensEntryAt (snd q) a) < fst (tokensEntryAt (snd q) b)
                     then - 1 else (1::int))
           = (\<lambda>a b. byTokensDate (R a) (R b))"
    by (simp add: byTokensDate_def R_def)
  have "map R sorted = sortJS byTokensDate (map R (fst q))"
    unfolding sorted_def cmp by (rule sortJS_map)
  also have "map R (fst q)
      = map (\<lambda>p. \<lparr>dmtDate = fst p, dmtTokensByModel = numberRecordAt h (snd p)\<rparr>)
            (map (tokensEntryAt (snd q)) (fst q))"
    by (simp add: R_def)
  also have "\<dots> = map (\<lambda>(date, tbm). \<lparr>dmtDate = date, dmtTokensByModel = tbm\<rparr>)
                      (absMap (numberRecordAt h) mtm)"
    using aux by (simp add: absMap_def split_beta)
  finally have m: "map R sorted = rebuildDailyModelTokens (absMap (numberRecordAt h) mtm)"
    by (simp add: rebuildDailyModelTokens_def)
  show ?thesis
    unfolding r using aux m by (simp add: newArray_def R_def)
qed

text \<open>
  The store model computes what the pure model computes: read back from the store, the
  object \<open>mergeRecentSessionsS\<close> returns is the aggregate \<open>mergeRecentSessions\<close> returns for
  the snapshot read from the store before the call.
\<close>

lemma mergeRecentSessionsS_refines:
  assumes wf: "wfStats h statsRef"
  shows "(case mergeRecentSessionsS scan pd hk statsRef h of
            Inl e \<Rightarrow> Inl e
          | Inr p \<Rightarrow> Inr (readStats (snd p) (fst p)))
         = mergeRecentSessions scan pd hk (readStats h statsRef)"
proof (cases scan)
  case (Inl e)
  then show ?thesis by (simp add: mergeRecentSessionsS_def mergeRecentSessions_def)
next
  case (Inr sessions)
  define so where "so = statsAt h statsRef"
  define src where "src = readStats h statsRef"
  have src: "version src = soVersion so" "lastComputedDate src = soLastComputedDate so"
    "dailyActivity src = map (activityEntryAt h) (arrayAt h (soDailyActivity so))"
    "dailyModelTokens src
       = map (\<lambda>e. \<lparr>dmtDate = fst (tokensEntryAt h e),
                    dmtTokensByModel = numberRecordAt h (snd (tokensEntryAt h e))\<rparr>)
             (arrayAt h (soDailyModelTokens so))"
    "modelUsage src = map (\<lambda>(model, u). (model, usageAt h u)) (usageRecordAt h (soModelUsage so))"
    "totalSessions src = soTotalSessions so" "totalMessages src = soTotalMessages so"
    "longestSession src = longestAt h (soLongestSession so)"
    "firstSessionDate src = soFirstSessionDate so"
    "hourCounts src = numberRecordAt h (soHourCounts so)"
    by (simp_all add: src_def so_def readStats_def Let_def)
  define recent where "recent = recentSessions (extractDateString (soLastComputedDate so)) sessions"
  show ?thesis
  proof (cases "recent = []")
    case True
    then have "recentSessions (extractDateString (soLastComputedDate (statsAt h statsRef))) sessions = []"
      by (simp add: recent_def so_def)
    moreover have "lastComputedDate (readStats h statsRef) = soLastComputedDate (statsAt h statsRef)"
      by (simp add: readStats_def Let_def)
    ultimately show ?thesis
      using Inr by (simp add: mergeRecentSessionsS_def mergeRecentSessions_def Let_def)
  next
    case False
    define dm where "dm = parseDetailsInBatches pd recent"
    define c1 where "c1 = copyDailyActivity (arrayAt h (soDailyActivity (statsAt h statsRef))) h"
    define c2 where "c2 = copyDailyModelTokens
                            (arrayAt (snd c1) (soDailyModelTokens (statsAt (snd c1) statsRef))) (snd c1)"
    define c3 where "c3 = newNumberRecord
                            (numberRecordAt (snd c2) (soHourCounts (statsAt (snd c2) statsRef))) (snd c2)"
    define c4 where "c4 = newUsageRecord [] (snd c3)"
    define h5 where "h5 = copyModelUsage
                            (usageRecordAt (snd c4) (soModelUsage (statsAt (snd c4) statsRef)))
                            (fst c4) (snd c4)"
    define c6 where "c6 = newLongest (longestAt h5 (soLongestSession (statsAt h5 statsRef))) h5"
    define lr0 where "lr0 = \<lparr>lrActivityMap = fst c1, lrModelTokensMap = fst c2,
                             lrModelUsage = fst c4, lrHourCounts = fst c3,
                             lrMessages = 0, lrLongest = fst c6\<rparr>"
    define c7 where "c7 = fold (sessionStepS dm hk) recent (lr0, snd c6)"
    define c8 where "c8 = rebuildDailyActivityS (lrActivityMap (fst c7)) (snd c7)"
    define c9 where "c9 = rebuildDailyModelTokensS (lrModelTokensMap (fst c7)) (snd c8)"
    define V where "V = (statsAt (snd c9) statsRef)
                         \<lparr>soDailyActivity := fst c8,
                          soDailyModelTokens := fst c9,
                          soModelUsage := lrModelUsage (fst c7),
                          soTotalSessions := soTotalSessions (statsAt (snd c6) statsRef) + int (length recent),
                          soTotalMessages := soTotalMessages (statsAt (snd c9) statsRef) + lrMessages (fst c7),
                          soLongestSession := lrLongest (fst c7),
                          soHourCounts := lrHourCounts (fst c7)\<rparr>"
    have eq: "mergeRecentSessionsS (Inr sessions) pd hk statsRef h = Inr (newStats V (snd c9))"
      using False
      unfolding V_def c9_def c8_def c7_def lr0_def c6_def h5_def c4_def c3_def c2_def c1_def dm_def
        recent_def so_def
      by (simp add: mergeRecentSessionsS_def Let_def split_beta)
    text \<open>the snapshot is well formed\<close>
    have w: "statsRef < nextRef h" "soModelUsage so < nextRef h" "soLongestSession so < nextRef h"
      "soHourCounts so < nextRef h"
      and w_tok: "\<forall>e\<in>set (arrayAt h (soDailyModelTokens so)). snd (tokensEntryAt h e) < nextRef h"
      and w_use: "\<forall>p\<in>set (usageRecordAt h (soModelUsage so)). snd p < nextRef h"
      using wf by (simp_all add: wfStats_def Let_def so_def)
    text \<open>the copies\<close>
    note s1 = copyDailyActivity_sim[of "arrayAt h (soDailyActivity (statsAt h statsRef))" h,
        folded c1_def]
    have a1: "absMap (countsAt (snd c1)) (fst c1)
        = fold (\<lambda>entry m. AList.update (daDate entry)
                \<lparr>acMessageCount = daMessageCount entry, acSessionCount = daSessionCount entry,
                 acToolCallCount = daToolCallCount entry\<rparr> m) (dailyActivity src) []"
      using s1 by (simp add: src so_def)
    have p1: "sepMap (nextRef (snd c1)) (fst c1)" using s1 by simp
    have t1: "statsAt (snd c1) = statsAt h" "arrayAt (snd c1) = arrayAt h"
      "tokensEntryAt (snd c1) = tokensEntryAt h" "numberRecordAt (snd c1) = numberRecordAt h"
      "usageAt (snd c1) = usageAt h" "usageRecordAt (snd c1) = usageRecordAt h"
      "longestAt (snd c1) = longestAt h"
      using s1 by simp_all
    have n1: "nextRef h \<le> nextRef (snd c1)" using s1 by simp
    have b2: "\<forall>e\<in>set (arrayAt (snd c1) (soDailyModelTokens (statsAt (snd c1) statsRef))).
                snd (tokensEntryAt (snd c1) e) < nextRef (snd c1)"
    proof
      fix e assume "e \<in> set (arrayAt (snd c1) (soDailyModelTokens (statsAt (snd c1) statsRef)))"
      then have "e \<in> set (arrayAt h (soDailyModelTokens so))" by (simp add: t1 so_def)
      with w_tok have "snd (tokensEntryAt h e) < nextRef h" by simp
      with n1 show "snd (tokensEntryAt (snd c1) e) < nextRef (snd c1)" by (simp add: t1)
    qed
    note s2 = copyDailyModelTokens_sim[OF b2, folded c2_def]
    have a2: "absMap (numberRecordAt (snd c2)) (fst c2)
        = fold (\<lambda>entry m. AList.update (dmtDate entry) (dmtTokensByModel entry) m)
               (dailyModelTokens src) []"
      using s2 by (simp add: src t1 so_def)
    have p2: "sepMap (nextRef (snd c2)) (fst c2)" using s2 by simp
    have t2: "statsAt (snd c2) = statsAt h" "countsAt (snd c2) = countsAt (snd c1)"
      "usageAt (snd c2) = usageAt h" "usageRecordAt (snd c2) = usageRecordAt h"
      "longestAt (snd c2) = longestAt h"
      using s2 by (simp_all add: t1)
    have n2: "nextRef (snd c1) \<le> nextRef (snd c2)" using s2 by simp
    have low2: "\<And>a. a < nextRef h \<Longrightarrow> numberRecordAt (snd c2) a = numberRecordAt h a"
    proof -
      fix a assume "a < nextRef h"
      with n1 have "a < nextRef (snd c1)" by simp
      with s2 have "numberRecordAt (snd c2) a = numberRecordAt (snd c1) a" by simp
      then show "numberRecordAt (snd c2) a = numberRecordAt h a" by (simp add: t1)
    qed
    have c3: "fst c3 = nextRef (snd c2)" "nextRef (snd c3) = Suc (nextRef (snd c2))"
      "numberRecordAt (snd c3)
         = (numberRecordAt (snd c2))(nextRef (snd c2) := numberRecordAt h (soHourCounts so))"
      "statsAt (snd c3) = statsAt h" "countsAt (snd c3) = countsAt (snd c1)"
      "usageAt (snd c3) = usageAt h" "usageRecordAt (snd c3) = usageRecordAt h"
      "longestAt (snd c3) = longestAt h"
      using low2[OF w(4)] by (simp_all add: c3_def newNumberRecord_def t2 so_def)
    have c4: "fst c4 = Suc (nextRef (snd c2))" "nextRef (snd c4) = Suc (Suc (nextRef (snd c2)))"
      "usageRecordAt (snd c4) = (usageRecordAt h)(Suc (nextRef (snd c2)) := [])"
      "numberRecordAt (snd c4) = numberRecordAt (snd c3)"
      "statsAt (snd c4) = statsAt h" "countsAt (snd c4) = countsAt (snd c1)"
      "usageAt (snd c4) = usageAt h" "longestAt (snd c4) = longestAt h"
      by (simp_all add: c4_def newUsageRecord_def c3)
    have n02: "nextRef h \<le> nextRef (snd c2)" using n1 n2 by simp
    have mu_ne: "soModelUsage so \<noteq> Suc (nextRef (snd c2))" using w(2) n02 by simp
    have entries: "usageRecordAt (snd c4) (soModelUsage (statsAt (snd c4) statsRef))
        = usageRecordAt h (soModelUsage so)"
      using mu_ne by (simp add: c4 so_def)
    have b5a: "sepMap (nextRef (snd c4)) (usageRecordAt (snd c4) (fst c4))"
      by (simp add: c4 sepMap_def)
    have b5b: "\<forall>p\<in>set (usageRecordAt (snd c4) (soModelUsage (statsAt (snd c4) statsRef))).
                 snd p < nextRef (snd c4)"
    proof
      fix p assume "p \<in> set (usageRecordAt (snd c4) (soModelUsage (statsAt (snd c4) statsRef)))"
      with w_use have "snd p < nextRef h" by (simp add: entries)
      with n02 show "snd p < nextRef (snd c4)" by (simp add: c4)
    qed
    note s5 = copyModelUsage_sim[OF b5a b5b, folded h5_def]
    have a5: "absMap (usageAt h5) (usageRecordAt h5 (fst c4))
        = fold (\<lambda>(model, usage) m. AList.update model usage m) (modelUsage src) []"
      using s5 by (simp add: entries src) (simp add: c4 absMap_def)
    have p5: "sepMap (nextRef h5) (usageRecordAt h5 (fst c4))" using s5 by simp
    have t5: "statsAt h5 = statsAt h" "countsAt h5 = countsAt (snd c1)"
      "numberRecordAt h5 = numberRecordAt (snd c3)" "longestAt h5 = longestAt h"
      using s5 by (simp_all add: c4)
    have n5: "Suc (Suc (nextRef (snd c2))) \<le> nextRef h5" using s5 by (simp add: c4)
    have c6: "fst c6 = nextRef h5" "nextRef (snd c6) = Suc (nextRef h5)"
      "longestAt (snd c6) (nextRef h5) = longestAt h (soLongestSession so)"
      "statsAt (snd c6) = statsAt h" "countsAt (snd c6) = countsAt (snd c1)"
      "numberRecordAt (snd c6) = numberRecordAt (snd c3)"
      "usageAt (snd c6) = usageAt h5" "usageRecordAt (snd c6) = usageRecordAt h5"
      by (simp_all add: c6_def newLongest_def t5 so_def)
    text \<open>the state before the loop\<close>
    have n16: "nextRef (snd c1) \<le> nextRef (snd c6)" "nextRef (snd c2) \<le> nextRef (snd c6)"
      "nextRef h5 \<le> nextRef (snd c6)" "nextRef (snd c2) < nextRef (snd c6)"
      using n2 n5 by (simp_all add: c6)
    have hc_other: "\<forall>p\<in>set (fst c2). snd p \<noteq> nextRef (snd c2)"
      using p2 by (rule sepMap_fresh_other) simp
    have sep6: "sepLoop (snd c6) lr0"
      using sepMap_mono[OF p1 n16(1)] sepMap_mono[OF p2 n16(2)] sepMap_mono[OF p5 n16(3)]
        n16(4) hc_other
      by (simp add: sepLoop_def lr0_def c3 c6)
    have "absMap (numberRecordAt (snd c3)) (fst c2) = absMap (numberRecordAt (snd c2)) (fst c2)"
      unfolding c3(3) using hc_other by (rule absMap_other)
    then have abs6: "absLoop (snd c6) lr0 = initialState src"
      by (simp add: absLoop_def initialState_def lr0_def c6 c3 a1 a2 a5 src)
    text \<open>the loop\<close>
    note s7 = fold_sessionStepS_sim[OF sep6, of dm hk recent, folded c7_def]
    define st where "st = fold (sessionStep dm hk) recent (initialState src)"
    have abs7: "absLoop (snd c7) (fst c7) = st" using s7 by (simp add: abs6 st_def)
    have f0: "frame (nextRef h) h h" by (rule frame_refl)
    have f1: "frame (nextRef h) h (snd c1)" and fr1: "\<forall>p\<in>set (fst c1). nextRef h \<le> snd p"
      using copyDailyActivity_inv[OF f0, of "arrayAt h (soDailyActivity (statsAt h statsRef))"]
      by (simp_all add: c1_def)
    have f2: "frame (nextRef h) h (snd c2)" and fr2: "\<forall>p\<in>set (fst c2). nextRef h \<le> snd p"
      using copyDailyModelTokens_inv[OF f1,
          of "arrayAt (snd c1) (soDailyModelTokens (statsAt (snd c1) statsRef))"]
      by (simp_all add: c2_def)
    have f3: "frame (nextRef h) h (snd c3)" unfolding c3_def using f2 by (rule frame_new)
    have u4: "usageInv (nextRef h) h (fst c4) (snd c4)"
      unfolding c4_def using f3 by (rule usageInv_newUsageRecord)
    have u5: "usageInv (nextRef h) h (fst c4) h5" unfolding h5_def using u4 by (rule copyModelUsage_inv)
    have u6: "usageInv (nextRef h) h (lrModelUsage lr0) (snd c6)"
      using usageInv_new(3)[OF u5] by (simp add: lr0_def c6_def)
    have l6: "localFresh (nextRef h) lr0"
      using fr1 fr2 n02 by (simp add: localFresh_def lr0_def c3)
    have "usageInv (nextRef h) h (lrModelUsage lr0) (snd c7)"
      using fold_sessionStepS_inv[OF u6 l6, of dm hk recent] by (simp add: c7_def)
    then have f7: "frame (nextRef h) h (snd c7)" by (rule usageInv_frame)
    have st7: "statsAt (snd c7) statsRef = so"
      using sameObjectsBelow_stats[OF frame_sameObjects[OF f7] w(1)] by (simp add: so_def)
    text \<open>the arrays of the result\<close>
    note s8 = rebuildDailyActivityS_sim[of "lrActivityMap (fst c7)" "snd c7", folded c8_def]
    note s9 = rebuildDailyModelTokensS_sim[of "lrModelTokensMap (fst c7)" "snd c8", folded c9_def]
    have t8: "statsAt (snd c8) = statsAt (snd c7)" "numberRecordAt (snd c8) = numberRecordAt (snd c7)"
      "usageAt (snd c8) = usageAt (snd c7)" "usageRecordAt (snd c8) = usageRecordAt (snd c7)"
      "longestAt (snd c8) = longestAt (snd c7)"
      using s8 by simp_all
    have t9: "statsAt (snd c9) = statsAt (snd c7)" "numberRecordAt (snd c9) = numberRecordAt (snd c7)"
      "usageAt (snd c9) = usageAt (snd c7)" "usageRecordAt (snd c9) = usageRecordAt (snd c7)"
      "longestAt (snd c9) = longestAt (snd c7)" "activityEntryAt (snd c9) = activityEntryAt (snd c8)"
      using s9 by (simp_all add: t8)
    have "fst c8 < nextRef (snd c8)" using s8 by simp
    with s9 have arr9: "arrayAt (snd c9) (fst c8) = arrayAt (snd c8) (fst c8)" by simp
    have da: "map (activityEntryAt (snd c9)) (arrayAt (snd c9) (fst c8))
        = rebuildDailyActivity (activityMap st)"
      unfolding arr9 t9(6) s8[THEN conjunct1] by (simp add: abs7[symmetric] absLoop_def)
    have dmt: "map (\<lambda>e. \<lparr>dmtDate = fst (tokensEntryAt (snd c9) e),
                         dmtTokensByModel = numberRecordAt (snd c9) (snd (tokensEntryAt (snd c9) e))\<rparr>)
                 (arrayAt (snd c9) (fst c9))
        = rebuildDailyModelTokens (modelTokensMap st)"
      unfolding s9[THEN conjunct1] by (simp add: t8 abs7[symmetric] absLoop_def)
    have mu: "map (\<lambda>(model, u). (model, usageAt (snd c9) u))
                (usageRecordAt (snd c9) (lrModelUsage (fst c7)))
        = modelUsageAcc st"
      by (simp add: t9 abs7[symmetric] absLoop_def absMap_def split_beta)
    have rest: "longestAt (snd c9) (lrLongest (fst c7)) = longestAcc st"
      "numberRecordAt (snd c9) (lrHourCounts (fst c7)) = hourCountsAcc st"
      "lrMessages (fst c7) = messagesAcc st"
      by (simp_all add: t9 abs7[symmetric] absLoop_def)
    have Vs: "soVersion V = soVersion so" "soLastComputedDate V = soLastComputedDate so"
      "soFirstSessionDate V = soFirstSessionDate so"
      "soTotalSessions V = soTotalSessions so + int (length recent)"
      "soTotalMessages V = soTotalMessages so + messagesAcc st"
      "soDailyActivity V = fst c8" "soDailyModelTokens V = fst c9"
      "soModelUsage V = lrModelUsage (fst c7)" "soLongestSession V = lrLongest (fst c7)"
      "soHourCounts V = lrHourCounts (fst c7)"
      by (simp_all add: V_def t9 st7 c6 rest so_def[symmetric])
    define res where "res = readStats (snd (newStats V (snd c9))) (fst (newStats V (snd c9)))"
    have res: "version res = soVersion so" "lastComputedDate res = soLastComputedDate so"
      "dailyActivity res = rebuildDailyActivity (activityMap st)"
      "dailyModelTokens res = rebuildDailyModelTokens (modelTokensMap st)"
      "modelUsage res = modelUsageAcc st"
      "totalSessions res = soTotalSessions so + int (length recent)"
      "totalMessages res = soTotalMessages so + messagesAcc st"
      "longestSession res = longestAcc st"
      "firstSessionDate res = soFirstSessionDate so"
      "hourCounts res = hourCountsAcc st"
      by (simp_all add: res_def readStats_def newStats_def Let_def Vs da dmt mu rest)
    have pure: "mergeRecentSessions (Inr sessions) pd hk src
        = Inr (src\<lparr>dailyActivity := rebuildDailyActivity (activityMap st),
                   dailyModelTokens := rebuildDailyModelTokens (modelTokensMap st),
                   modelUsage := modelUsageAcc st,
                   totalSessions := totalSessions src + int (length recent),
                   totalMessages := totalMessages src + messagesAcc st,
                   longestSession := longestAcc st,
                   hourCounts := hourCountsAcc st\<rparr>)"
      using False unfolding st_def dm_def recent_def
      by (simp add: mergeRecentSessions_def Let_def src(2))
    have "res = src\<lparr>dailyActivity := rebuildDailyActivity (activityMap st),
                   dailyModelTokens := rebuildDailyModelTokens (modelTokensMap st),
                   modelUsage := modelUsageAcc st,
                   totalSessions := totalSessions src + int (length recent),
                   totalMessages := totalMessages src + messagesAcc st,
                   longestSession := longestAcc st,
                   hourCounts := hourCountsAcc st\<rparr>"
      by (rule StatsCache.equality) (simp_all add: res src)
    then show ?thesis
      using Inr pure by (simp add: eq res_def src_def)
  qed
qed

text \<open>What a well-formed snapshot stands for depends only on objects that existed before.\<close>

lemma readStats_frame:
  assumes s: "sameObjectsBelow (nextRef h) h h'" and wf: "wfStats h r"
  shows "readStats h' r = readStats h r"
proof -
  define so where "so = statsAt h r"
  have w: "r < nextRef h" "soDailyActivity so < nextRef h" "soDailyModelTokens so < nextRef h"
    "soModelUsage so < nextRef h" "soLongestSession so < nextRef h" "soHourCounts so < nextRef h"
    and w_act: "\<forall>e\<in>set (arrayAt h (soDailyActivity so)). e < nextRef h"
    and w_tok: "\<forall>e\<in>set (arrayAt h (soDailyModelTokens so)).
                  e < nextRef h \<and> snd (tokensEntryAt h e) < nextRef h"
    and w_use: "\<forall>p\<in>set (usageRecordAt h (soModelUsage so)). snd p < nextRef h"
    using wf by (simp_all add: wfStats_def Let_def so_def)
  have same: "\<And>a. a < nextRef h \<Longrightarrow>
      statsAt h' a = statsAt h a \<and> arrayAt h' a = arrayAt h a
      \<and> activityEntryAt h' a = activityEntryAt h a \<and> tokensEntryAt h' a = tokensEntryAt h a
      \<and> numberRecordAt h' a = numberRecordAt h a \<and> usageAt h' a = usageAt h a
      \<and> usageRecordAt h' a = usageRecordAt h a \<and> longestAt h' a = longestAt h a"
    using s by (simp add: sameObjectsBelow_def)
  have so': "statsAt h' r = so" using same[OF w(1)] by (simp add: so_def)
  have act: "map (activityEntryAt h') (arrayAt h' (soDailyActivity so))
      = map (activityEntryAt h) (arrayAt h (soDailyActivity so))"
    using same[OF w(2)] w_act same by (simp cong: map_cong)
  have tok: "map (\<lambda>e. \<lparr>dmtDate = fst (tokensEntryAt h' e),
                       dmtTokensByModel = numberRecordAt h' (snd (tokensEntryAt h' e))\<rparr>)
               (arrayAt h' (soDailyModelTokens so))
      = map (\<lambda>e. \<lparr>dmtDate = fst (tokensEntryAt h e),
                   dmtTokensByModel = numberRecordAt h (snd (tokensEntryAt h e))\<rparr>)
            (arrayAt h (soDailyModelTokens so))"
  proof -
    have "\<And>e. e \<in> set (arrayAt h (soDailyModelTokens so)) \<Longrightarrow>
        tokensEntryAt h' e = tokensEntryAt h e
        \<and> numberRecordAt h' (snd (tokensEntryAt h e)) = numberRecordAt h (snd (tokensEntryAt h e))"
      using w_tok same by simp
    then show ?thesis using same[OF w(3)] by (simp cong: map_cong)
  qed
  have use: "map (\<lambda>(model, u). (model, usageAt h' u)) (usageRecordAt h' (soModelUsage so))
      = map (\<lambda>(model, u). (model, usageAt h u)) (usageRecordAt h (soModelUsage so))"
  proof -
    have "\<And>p. p \<in> set (usageRecordAt h (soModelUsage so)) \<Longrightarrow> usageAt h' (snd p) = usageAt h (snd p)"
      using w_use same by simp
    then show ?thesis using same[OF w(4)] by (simp add: split_beta cong: map_cong)
  qed
  have rest: "longestAt h' (soLongestSession so) = longestAt h (soLongestSession so)"
    "numberRecordAt h' (soHourCounts so) = numberRecordAt h (soHourCounts so)"
    using same[OF w(5)] same[OF w(6)] by simp_all
  show ?thesis
    by (simp add: readStats_def Let_def so' so_def[symmetric] act tok use rest)
qed

lemma ex_store_reads: "readStats exStore 0 = exSnapshot"
  by (simp add: readStats_def exStore_def exStatsObj_def exSnapshot_def)

lemma ex_store_wf: "wfStats exStore 0"
  by (simp add: wfStats_def exStore_def exStatsObj_def)

text \<open>
  C10. Enrichment returns an aggregate whose \<open>version\<close>, \<open>lastComputedDate\<close> and
  \<open>firstSessionDate\<close> are those of the snapshot it was given, and it writes to no object
  that existed before the call: the snapshot object, its arrays, their entries and every
  record and usage object they refer to hold after the call what they held before it. Every
  write of the folds goes to an object made during the call. When every reference of the
  snapshot is to an allocated object, the snapshot therefore reads after the call as it
  read before it, and the object returned reads as the aggregate that \<open>mergeRecentSessions\<close>
  computes from it.
\<close>

theorem enrichment_keeps_snapshot_and_frame_fields:
  assumes "mergeRecentSessionsS scan pd hk statsRef h = Inr (r, h')"
    and "statsRef < nextRef h"
  shows "sameObjectsBelow (nextRef h) h h'
       \<and> soVersion (statsAt h' r) = soVersion (statsAt h statsRef)
       \<and> soLastComputedDate (statsAt h' r) = soLastComputedDate (statsAt h statsRef)
       \<and> soFirstSessionDate (statsAt h' r) = soFirstSessionDate (statsAt h statsRef)
       \<and> (wfStats h statsRef \<longrightarrow>
            readStats h' statsRef = readStats h statsRef
            \<and> mergeRecentSessions scan pd hk (readStats h statsRef) = Inr (readStats h' r))"
proof -
  have pure: "wfStats h statsRef \<Longrightarrow>
      mergeRecentSessions scan pd hk (readStats h statsRef) = Inr (readStats h' r)"
    using mergeRecentSessionsS_refines[of h statsRef scan pd hk] assms(1) by simp
  show ?thesis
  proof (cases scan)
    case (Inl e)
    with assms show ?thesis by (simp add: mergeRecentSessionsS_def)
  next
    case (Inr sessions)
    show ?thesis
    proof (cases "recentSessions (extractDateString (soLastComputedDate (statsAt h statsRef)))
                    sessions = []")
      case True
      with assms Inr have "r = statsRef" "h' = h"
        by (simp_all add: mergeRecentSessionsS_def)
      then show ?thesis using pure by (simp add: sameObjectsBelow_def)
    next
      case False
      from mergeRecentSessionsS_unfold[OF False, of pd hk]
      obtain lr :: LoopRefs and h9 da dmt total where f9: "frame (nextRef h) h h9"
        and m: "mergeRecentSessionsS (Inr sessions) pd hk statsRef h
               = Inr (newStats
                        ((statsAt h9 statsRef)
                           \<lparr>soDailyActivity := da, soDailyModelTokens := dmt,
                            soModelUsage := lrModelUsage lr, soTotalSessions := total,
                            soTotalMessages := soTotalMessages (statsAt h9 statsRef) + lrMessages lr,
                            soLongestSession := lrLongest lr,
                            soHourCounts := lrHourCounts lr\<rparr>) h9)"
        by blast
      let ?v = "(statsAt h9 statsRef)
                           \<lparr>soDailyActivity := da, soDailyModelTokens := dmt,
                            soModelUsage := lrModelUsage lr, soTotalSessions := total,
                            soTotalMessages := soTotalMessages (statsAt h9 statsRef) + lrMessages lr,
                            soLongestSession := lrLongest lr,
                            soHourCounts := lrHourCounts lr\<rparr>"
      from m assms(1) Inr have r: "r = fst (newStats ?v h9)" and h': "h' = snd (newStats ?v h9)"
        by simp_all
      have f: "frame (nextRef h) h h'" unfolding h' using f9 by (rule frame_new)
      have s9: "statsAt h9 statsRef = statsAt h statsRef"
        using frame_sameObjects[OF f9] assms(2) by (rule sameObjectsBelow_stats)
      have "statsAt h' r = ?v" unfolding r h' by (simp add: newStats_def)
      with s9 have fields: "soVersion (statsAt h' r) = soVersion (statsAt h statsRef)"
        "soLastComputedDate (statsAt h' r) = soLastComputedDate (statsAt h statsRef)"
        "soFirstSessionDate (statsAt h' r) = soFirstSessionDate (statsAt h statsRef)"
        by simp_all
      have same: "sameObjectsBelow (nextRef h) h h'" using f by (rule frame_sameObjects)
      show ?thesis
        using same fields readStats_frame[OF same] pure by simp
    qed
  qed
qed

theorem enrichment_keeps_snapshot_and_frame_fields_witness:
  "\<exists>r h'. mergeRecentSessionsS (Inr [exSession]) exParseOk exHourKey 0 exStore = Inr (r, h')
         \<and> 0 < nextRef exStore
         \<and> wfStats exStore 0
         \<and> sameObjectsBelow (nextRef exStore) exStore h'
         \<and> soVersion (statsAt h' r) = 1
         \<and> soLastComputedDate (statsAt h' r) = ''2026-01-01''
         \<and> soFirstSessionDate (statsAt h' r) = ''2026-01-01T08:00:00Z''
         \<and> readStats h' 0 = exSnapshot
         \<and> readStats h' r = exEnriched"
proof -
  have "(case mergeRecentSessionsS (Inr [exSession]) exParseOk exHourKey 0 exStore of
           Inl e \<Rightarrow> Inl e
         | Inr p \<Rightarrow> Inr (readStats (snd p) (fst p))) = (Inr exEnriched :: error + StatsCache)"
    using mergeRecentSessionsS_refines[OF ex_store_wf, of "Inr [exSession]" exParseOk exHourKey]
    by (simp add: ex_store_reads ex_merge)
  then obtain r h' where
    m: "mergeRecentSessionsS (Inr [exSession]) exParseOk exHourKey 0 exStore = Inr (r, h')"
    by (cases "mergeRecentSessionsS (Inr [exSession]) exParseOk exHourKey 0 exStore") auto
  have n: "0 < nextRef exStore" by (simp add: exStore_def)
  have v: "soVersion (statsAt exStore 0) = 1"
    "soLastComputedDate (statsAt exStore 0) = ''2026-01-01''"
    "soFirstSessionDate (statsAt exStore 0) = ''2026-01-01T08:00:00Z''"
    by (simp_all add: exStore_def exStatsObj_def)
  from enrichment_keeps_snapshot_and_frame_fields[OF m n]
  have "sameObjectsBelow (nextRef exStore) exStore h'
      \<and> soVersion (statsAt h' r) = 1
      \<and> soLastComputedDate (statsAt h' r) = ''2026-01-01''
      \<and> soFirstSessionDate (statsAt h' r) = ''2026-01-01T08:00:00Z''
      \<and> readStats h' 0 = exSnapshot
      \<and> readStats h' r = exEnriched"
    using ex_store_wf by (simp add: v ex_store_reads ex_merge)
  with m n ex_store_wf show ?thesis by blast
qed

end
